theory Spec2Isabelle
  imports Main "HOL-Library.Char_ord" "HOL-Library.List_Lexorder"
    "HOL-Library.Product_Lexorder" "HOL-Library.Sublist"
begin

section \<open>Errors\<close>

text \<open>
  The exceptions of \<^verbatim>\<open>lib/spack/spack/version.py\<close>. The three \<^verbatim>\<open>ValueError\<close>s of the
  module are told apart by their message: \<open>BadCharacters\<close> ("Bad characters in version
  string"), \<open>InvalidRange\<close> ("Invalid Version range") and \<open>StarInInequality\<close> ("cannot
  create version range inequality ... with starred versions"); \<open>UnpackError\<close> is the
  \<^verbatim>\<open>ValueError\<close> of a tuple assignment with the wrong number of values.
\<close>

datatype error =
    BadCharacters
  | InvalidRange
  | StarInInequality
  | UnpackError
  | TypeError
  | IndexError
  | AssertionError

definition bind_err :: "error + 'a \<Rightarrow> ('a \<Rightarrow> error + 'b) \<Rightarrow> error + 'b" where
  "bind_err m f = (case m of Inl e \<Rightarrow> Inl e | Inr x \<Rightarrow> f x)"

section \<open>Characters and regular expressions of the module\<close>

definition is_alpha :: "char \<Rightarrow> bool" where
  "is_alpha c = (c \<in> set ''abcdefghijklmnopqrstuvwxyzABCDEFGHIJKLMNOPQRSTUVWXYZ'')"

definition is_digit :: "char \<Rightarrow> bool" where
  "is_digit c = (c \<in> set ''0123456789'')"

text \<open>\<^verbatim>\<open>VALID_VERSION = r'[A-Za-z0-9_\.\*\-]'\<close>: one character of the class.\<close>

definition valid_version_char :: "char \<Rightarrow> bool" where
  "valid_version_char c = (is_alpha c \<or> is_digit c \<or> c \<in> set ''_.*-'')"

text \<open>
  \<^verbatim>\<open>re.match(VALID_VERSION, string)\<close>: the pattern is a single character class, and
  \<^verbatim>\<open>re.match\<close> anchors at the start only, so the match succeeds as soon as the first
  character is in the class.
\<close>

fun re_match_VALID_VERSION :: "string \<Rightarrow> bool" where
  "re_match_VALID_VERSION [] = False"
| "re_match_VALID_VERSION (c # cs) = valid_version_char c"

text \<open>
  \<^verbatim>\<open>str.strip()\<close>: the characters below 256 for which \<^verbatim>\<open>str.isspace\<close> holds.
\<close>

definition is_space :: "char \<Rightarrow> bool" where
  "is_space c = ((of_char c :: nat) \<in> set [9, 10, 11, 12, 13, 28, 29, 30, 31, 32, 133, 160])"

definition strip :: "string \<Rightarrow> string" where
  "strip s = rev (dropWhile is_space (rev (dropWhile is_space s)))"

text \<open>
  \<^verbatim>\<open>re.findall(r'[a-zA-Z]+|[0-9]+', string)\<close>: the maximal runs of letters and of digits,
  from left to right.
\<close>

function findall_segments :: "string \<Rightarrow> string list" where
  "findall_segments [] = []"
| "findall_segments (c # cs) =
     (if is_alpha c then (c # takeWhile is_alpha cs) # findall_segments (dropWhile is_alpha cs)
      else if is_digit c then (c # takeWhile is_digit cs) # findall_segments (dropWhile is_digit cs)
      else findall_segments cs)"
  by pat_completeness auto
termination
  by (relation "measure length") (auto simp: length_dropWhile_le less_Suc_eq_le)

text \<open>
  \<^verbatim>\<open>re.split(r'[a-zA-Z]+|[0-9]+', string)\<close>: the text before the first run, between
  consecutive runs, and after the last run; \<open>acc\<close> is the piece being collected.
\<close>

function split_segments_from :: "string \<Rightarrow> string \<Rightarrow> string list" where
  "split_segments_from acc [] = [acc]"
| "split_segments_from acc (c # cs) =
     (if is_alpha c then acc # split_segments_from [] (dropWhile is_alpha cs)
      else if is_digit c then acc # split_segments_from [] (dropWhile is_digit cs)
      else split_segments_from (acc @ [c]) cs)"
  by pat_completeness auto
termination
  by (relation "measure (\<lambda>(acc, s). length s)") (auto simp: length_dropWhile_le less_Suc_eq_le)

definition split_segments :: "string \<Rightarrow> string list" where
  "split_segments s = split_segments_from [] s"

section \<open>Version\<close>

text \<open>
  A segment of \<^verbatim>\<open>Version.version\<close>: a Python \<^verbatim>\<open>int\<close> or a \<^verbatim>\<open>str\<close>.
\<close>

datatype seg = SInt int | SStr string

definition digit_value :: "char \<Rightarrow> int" where
  "digit_value c = int (of_char c) - 48"

definition int_of_digits :: "string \<Rightarrow> int" where
  "int_of_digits s = foldl (\<lambda>n c. 10 * n + digit_value c) 0 s"

text \<open>
  \<^verbatim>\<open>int_if_int\<close>, on the strings it is applied to: a match of the segment regex is a run
  of digits, for which \<^verbatim>\<open>int()\<close> succeeds, or a run of letters, for which it raises
  \<^verbatim>\<open>ValueError\<close> and the string is returned as it is.
\<close>

definition int_if_int :: "string \<Rightarrow> seg" where
  "int_if_int s = (if s \<noteq> [] \<and> list_all is_digit s then SInt (int_of_digits s) else SStr s)"

record Version =
  string :: string
  version :: "seg list"
  separators :: "string list"

text \<open>\<^verbatim>\<open>Version.__init__\<close>.\<close>

definition Version_init :: "string \<Rightarrow> error + Version" where
  "Version_init s =
     (if \<not> re_match_VALID_VERSION s then Inl BadCharacters
      else let s' = strip s in
        Inr \<lparr> string = s',
              version = map int_if_int (findall_segments s'),
              separators = tl (split_segments s') \<rparr>)"

text \<open>\<^verbatim>\<open>infinity_versions\<close>: the order in the list implies the comparison rules.\<close>

definition infinity_versions :: "string list" where
  "infinity_versions = [''develop'', ''main'', ''master'', ''head'', ''trunk'']"

text \<open>\<^verbatim>\<open>a in infinity_versions\<close>: an \<^verbatim>\<open>int\<close> equals no string.\<close>

fun in_infinity_versions :: "seg \<Rightarrow> bool" where
  "in_infinity_versions (SStr s) = (s \<in> set infinity_versions)"
| "in_infinity_versions (SInt n) = False"

text \<open>\<^verbatim>\<open>infinity_versions.index(a)\<close>, called for members of the list only.\<close>

fun infinity_index :: "seg \<Rightarrow> nat" where
  "infinity_index (SStr s) = length (takeWhile (\<lambda>t. t \<noteq> s) infinity_versions)"
| "infinity_index (SInt n) = length infinity_versions"

text \<open>
  The body of the \<^verbatim>\<open>else\<close> branch in the loop of \<^verbatim>\<open>Version.__lt__\<close>: the verdict on the
  first pair of segments that differ. Strings compare as Python compares them, by code
  point, a proper prefix being smaller.
\<close>

fun segment_lt :: "seg \<Rightarrow> seg \<Rightarrow> bool" where
  "segment_lt a b =
     (if in_infinity_versions a then
        (if in_infinity_versions b then infinity_index a > infinity_index b else False)
      else if in_infinity_versions b then True
      else (case (a, b) of
              (SInt x, SInt y) \<Rightarrow> x < y
            | (SStr s, SStr t) \<Rightarrow> s < t
            | (SStr s, SInt y) \<Rightarrow> True
            | (SInt x, SStr t) \<Rightarrow> False))"

text \<open>
  The \<^verbatim>\<open>for a, b in zip(self.version, other.version)\<close> loop: \<open>Some r\<close> when the loop
  returns \<open>r\<close>, \<open>None\<close> when it runs to its end.
\<close>

fun lt_loop :: "(seg \<times> seg) list \<Rightarrow> bool option" where
  "lt_loop [] = None"
| "lt_loop ((a, b) # ps) = (if a = b then lt_loop ps else Some (segment_lt a b))"

text \<open>\<^verbatim>\<open>Version.__lt__\<close> on two Versions.\<close>

definition Version_lt :: "Version \<Rightarrow> Version \<Rightarrow> bool" where
  "Version_lt self other =
     (if version self = version other then False
      else (case lt_loop (zip (version self) (version other)) of
              Some r \<Rightarrow> r
            | None \<Rightarrow> length (version self) < length (version other)))"

text \<open>\<^verbatim>\<open>Version.__eq__\<close> on two Versions: the segment tuples are equal.\<close>

definition Version_eq :: "Version \<Rightarrow> Version \<Rightarrow> bool" where
  "Version_eq self other = (version self = version other)"

text \<open>\<^verbatim>\<open>__le__\<close>, \<^verbatim>\<open>__ge__\<close> and \<^verbatim>\<open>__gt__\<close> of Version.\<close>

definition Version_le :: "Version \<Rightarrow> Version \<Rightarrow> bool" where
  "Version_le self other = (Version_eq self other \<or> Version_lt self other)"

definition Version_ge :: "Version \<Rightarrow> Version \<Rightarrow> bool" where
  "Version_ge self other = (\<not> Version_lt self other)"

definition Version_gt :: "Version \<Rightarrow> Version \<Rightarrow> bool" where
  "Version_gt self other = (\<not> Version_eq self other \<and> \<not> Version_lt self other)"

text \<open>
  Truth value of a Version: the class defines \<^verbatim>\<open>__len__\<close> and no \<^verbatim>\<open>__bool__\<close>, so a
  Version with no segment is false. \<open>truthy\<close> is the truth value of an attribute that
  holds a Version or \<^verbatim>\<open>None\<close>.
\<close>

definition Version_bool :: "Version \<Rightarrow> bool" where
  "Version_bool v = (length (version v) \<noteq> 0)"

definition truthy :: "Version option \<Rightarrow> bool" where
  "truthy x = (case x of None \<Rightarrow> False | Some v \<Rightarrow> Version_bool v)"

text \<open>\<^verbatim>\<open>Version.satisfies\<close> on two Versions.\<close>

definition Version_satisfies :: "Version \<Rightarrow> Version \<Rightarrow> bool" where
  "Version_satisfies self other =
     (let nself = length (version self); nother = length (version other)
      in nother \<le> nself \<and> take nother (version self) = version other)"

text \<open>
  \<^verbatim>\<open>Version.__contains__\<close> on two Versions: \<open>Version_contains self other\<close> is
  \<^verbatim>\<open>other in self\<close>.
\<close>

definition Version_contains :: "Version \<Rightarrow> Version \<Rightarrow> bool" where
  "Version_contains self other = (take (length (version self)) (version other) = version self)"

text \<open>\<^verbatim>\<open>Version.overlaps\<close> on two Versions: \<^verbatim>\<open>self in other or other in self\<close>.\<close>

definition Version_overlaps :: "Version \<Rightarrow> Version \<Rightarrow> bool" where
  "Version_overlaps self other = (Version_contains other self \<or> Version_contains self other)"

text \<open>
  \<^verbatim>\<open>Version.is_predecessor\<close>: \<^verbatim>\<open>self.version[-1]\<close> raises \<^verbatim>\<open>IndexError\<close> on an empty
  tuple.
\<close>

definition is_predecessor :: "Version \<Rightarrow> Version \<Rightarrow> error + bool" where
  "is_predecessor self other =
     (if length (version self) \<noteq> length (version other) then Inr False
      else if version self = [] then Inl IndexError
      else (case (last (version self), last (version other)) of
              (SInt sl, SInt ol) \<Rightarrow> Inr (ol - sl = 1)
            | _ \<Rightarrow> Inr False))"

section \<open>Endpoints\<close>

datatype location = Left | Right

record VersionEndpoint =
  endpoint_value :: "Version option"
  location :: location
  includes_endpoint :: bool

text \<open>
  \<^verbatim>\<open>_VersionEndpoint.__init__\<close>: an infinite (\<^verbatim>\<open>None\<close>) value that is not included fails an
  assertion.
\<close>

definition VersionEndpoint_init :: "Version option \<Rightarrow> location \<Rightarrow> bool \<Rightarrow> error + VersionEndpoint" where
  "VersionEndpoint_init v loc inc =
     (if v = None \<and> \<not> inc then Inl AssertionError
      else Inr \<lparr> endpoint_value = v, location = loc, includes_endpoint = inc \<rparr>)"

text \<open>
  \<^verbatim>\<open>==\<close> between two attributes that hold a Version or \<^verbatim>\<open>None\<close>: \<^verbatim>\<open>Version.__eq__\<close>
  answers \<^verbatim>\<open>False\<close> for \<^verbatim>\<open>None\<close>, and \<^verbatim>\<open>None == None\<close> holds.
\<close>

definition opt_Version_eq :: "Version option \<Rightarrow> Version option \<Rightarrow> bool" where
  "opt_Version_eq a b =
     (case (a, b) of
        (None, None) \<Rightarrow> True
      | (Some x, Some y) \<Rightarrow> Version_eq x y
      | _ \<Rightarrow> False)"

text \<open>
  \<^verbatim>\<open>_VersionEndpoint.__lt__\<close>, with the assertion of \<^verbatim>\<open>_endpoint_only\<close> that both
  endpoints are on the same side.
\<close>

definition VersionEndpoint_lt :: "VersionEndpoint \<Rightarrow> VersionEndpoint \<Rightarrow> error + bool" where
  "VersionEndpoint_lt s o' =
     (if location s \<noteq> location o' then Inl AssertionError
      else if opt_Version_eq (endpoint_value s) (endpoint_value o') then
        (if includes_endpoint s \<noteq> includes_endpoint o' then Inr (includes_endpoint s)
         else Inr False)
      else
        (let infinite_left_wins = (location s = Left) in
         case (endpoint_value s, endpoint_value o') of
           (None, _) \<Rightarrow> Inr infinite_left_wins
         | (Some sv, None) \<Rightarrow> Inr (\<not> infinite_left_wins)
         | (Some sv, Some ov) \<Rightarrow> Inr (Version_lt sv ov)))"

section \<open>VersionRange\<close>

record VersionRange =
  start :: "Version option"
  range_end :: "Version option"
  includes_left_endpoint :: bool
  includes_right_endpoint :: bool

text \<open>
  \<^verbatim>\<open>VersionRange.__init__\<close> on endpoints that are Versions or \<^verbatim>\<open>None\<close>. The test
  \<^verbatim>\<open>start and end and end < start\<close> reads the truth values of the endpoints, so it is
  skipped when one of them has no segment. \<open>InvalidRange\<close> stands for the exit through
  the \<^verbatim>\<open>raise ValueError("Invalid Version range: %s" % self)\<close> statement (formatting the
  message calls \<^verbatim>\<open>__str__\<close> before the inclusion flags are set, so the exception that
  leaves the constructor there is in fact the \<^verbatim>\<open>AttributeError\<close> of that read).
\<close>

definition VersionRange_init ::
  "Version option \<Rightarrow> Version option \<Rightarrow> bool \<Rightarrow> bool \<Rightarrow> error + VersionRange" where
  "VersionRange_init s e il ir =
     (if truthy s \<and> truthy e \<and> (case (s, e) of (Some sv, Some ev) \<Rightarrow> Version_lt ev sv | _ \<Rightarrow> False)
      then Inl InvalidRange
      else if s = None \<and> \<not> il then Inl AssertionError
      else if e = None \<and> \<not> ir then Inl AssertionError
      else Inr \<lparr> start = s, range_end = e,
                 includes_left_endpoint = il, includes_right_endpoint = ir \<rparr>)"

text \<open>\<^verbatim>\<open>_low_endpoint\<close> and \<^verbatim>\<open>_high_endpoint\<close>.\<close>

definition low_endpoint :: "VersionRange \<Rightarrow> error + VersionEndpoint" where
  "low_endpoint r = VersionEndpoint_init (start r) Left (includes_left_endpoint r)"

definition high_endpoint :: "VersionRange \<Rightarrow> error + VersionEndpoint" where
  "high_endpoint r = VersionEndpoint_init (range_end r) Right (includes_right_endpoint r)"

text \<open>
  \<^verbatim>\<open>VersionRange.__lt__\<close> on two ranges: true when the low endpoints are in order, and
  otherwise the verdict of the high endpoints.
\<close>

definition VersionRange_lt :: "VersionRange \<Rightarrow> VersionRange \<Rightarrow> error + bool" where
  "VersionRange_lt s o' =
     bind_err (low_endpoint s) (\<lambda>sl.
     bind_err (low_endpoint o') (\<lambda>ol.
     bind_err (VersionEndpoint_lt sl ol) (\<lambda>b.
       if b then Inr True
       else
         bind_err (high_endpoint s) (\<lambda>sh.
         bind_err (high_endpoint o') (\<lambda>oh.
           VersionEndpoint_lt sh oh)))))"

text \<open>\<^verbatim>\<open>VersionRange.__eq__\<close> on two ranges.\<close>

definition VersionRange_eq :: "VersionRange \<Rightarrow> VersionRange \<Rightarrow> bool" where
  "VersionRange_eq self other =
     (opt_Version_eq (start self) (start other) \<and>
      opt_Version_eq (range_end self) (range_end other) \<and>
      includes_left_endpoint self = includes_left_endpoint other \<and>
      includes_right_endpoint self = includes_right_endpoint other)"

text \<open>
  The \<^verbatim>\<open>concrete\<close> property of a range: the Version it reduces to, \<^verbatim>\<open>None\<close> when it does
  not, and an assertion that fails when the endpoints are equal and exactly one of them
  is included.
\<close>

definition VersionRange_concrete :: "VersionRange \<Rightarrow> error + Version option" where
  "VersionRange_concrete self =
     (if \<not> opt_Version_eq (start self) (range_end self) then Inr None
      else if start self = None then Inr None
      else if includes_left_endpoint self \<or> includes_right_endpoint self then
        (if includes_left_endpoint self = includes_right_endpoint self then Inr (start self)
         else Inl AssertionError)
      else Inr None)"

text \<open>
  \<^verbatim>\<open>VersionRange.__contains__\<close> on two ranges: \<open>VersionRange_contains self other\<close> is
  \<^verbatim>\<open>other in self\<close>. Python reads \<^verbatim>\<open>A and not B or C\<close> as \<^verbatim>\<open>(A and (not B)) or C\<close>.
\<close>

definition in_lower :: "VersionRange \<Rightarrow> VersionRange \<Rightarrow> bool" where
  "in_lower self other =
     (((opt_Version_eq (start self) (start other) \<and> \<not> includes_left_endpoint self)
        \<or> includes_left_endpoint other)
      \<or> start self = None
      \<or> (case (start self, start other) of
            (Some ss, Some os) \<Rightarrow> Version_lt ss os \<or> Version_contains ss os
          | _ \<Rightarrow> False))"

definition in_upper :: "VersionRange \<Rightarrow> VersionRange \<Rightarrow> bool" where
  "in_upper self other =
     (((opt_Version_eq (range_end self) (range_end other) \<and> \<not> includes_right_endpoint self)
        \<or> includes_right_endpoint other)
      \<or> range_end self = None
      \<or> (case (range_end self, range_end other) of
            (Some se, Some oe) \<Rightarrow> Version_gt se oe \<or> Version_contains se oe
          | _ \<Rightarrow> False))"

definition VersionRange_contains :: "VersionRange \<Rightarrow> VersionRange \<Rightarrow> bool" where
  "VersionRange_contains self other = (if \<not> in_lower self other then False else in_upper self other)"

text \<open>
  One conjunct of \<^verbatim>\<open>VersionRange.overlaps\<close>: for the start \<open>s\<close> of one range and the end
  \<open>e\<close> of the other,
  \<^verbatim>\<open>s is None or e is None or s <= e or e in s or s in e\<close>.
\<close>

definition start_reaches_end :: "Version option \<Rightarrow> Version option \<Rightarrow> bool" where
  "start_reaches_end s e =
     (case (s, e) of
        (None, _) \<Rightarrow> True
      | (_, None) \<Rightarrow> True
      | (Some sv, Some ev) \<Rightarrow>
          Version_le sv ev \<or> Version_contains sv ev \<or> Version_contains ev sv)"

text \<open>\<^verbatim>\<open>VersionRange.overlaps\<close> on two ranges.\<close>

definition VersionRange_overlaps :: "VersionRange \<Rightarrow> VersionRange \<Rightarrow> bool" where
  "VersionRange_overlaps self other =
     (start_reaches_end (start self) (range_end other) \<and>
      start_reaches_end (start other) (range_end self))"

text \<open>
  \<^verbatim>\<open>VersionRange.satisfies\<close> on two ranges, as a truth value: the expression
  \<^verbatim>\<open>self.overlaps(other) or self.start and other.end and self.start.satisfies(other.end)\<close>
  reads the truth values of \<^verbatim>\<open>self.start\<close> and \<^verbatim>\<open>other.end\<close>.
\<close>

definition VersionRange_satisfies :: "VersionRange \<Rightarrow> VersionRange \<Rightarrow> bool" where
  "VersionRange_satisfies self other =
     (VersionRange_overlaps self other \<or>
      (truthy (start self) \<and> truthy (range_end other) \<and>
       (case (start self, range_end other) of
          (Some sv, Some ev) \<Rightarrow> Version_satisfies sv ev
        | _ \<Rightarrow> False)))"

section \<open>Elements of a VersionList and coercion\<close>

text \<open>
  The elements of \<^verbatim>\<open>VersionList.versions\<close> are Versions and VersionRanges; a value of the
  module is one of these or a VersionList.
\<close>

datatype item = V Version | R VersionRange

datatype vobj = Item item | VList "item list"

text \<open>
  \<^verbatim>\<open>coerce_versions\<close> between a Version and a VersionRange builds \<^verbatim>\<open>VersionRange(b, b)\<close>:
  both endpoints included, and the constructor's test \<^verbatim>\<open>end < start\<close> is false.
\<close>

definition as_range :: "item \<Rightarrow> VersionRange" where
  "as_range x =
     (case x of
        V v \<Rightarrow> \<lparr> start = Some v, range_end = Some v,
                 includes_left_endpoint = True, includes_right_endpoint = True \<rparr>
      | R r \<Rightarrow> r)"

text \<open>
  The methods under the \<^verbatim>\<open>coerced\<close> decorator, between two elements: two Versions go to
  the Version method, and in every other case both sides go to the VersionRange method
  as ranges.
\<close>

definition item_lt :: "item \<Rightarrow> item \<Rightarrow> error + bool" where
  "item_lt a b =
     (case (a, b) of
        (V x, V y) \<Rightarrow> Inr (Version_lt x y)
      | _ \<Rightarrow> VersionRange_lt (as_range a) (as_range b))"

definition item_eq :: "item \<Rightarrow> item \<Rightarrow> bool" where
  "item_eq a b =
     (case (a, b) of
        (V x, V y) \<Rightarrow> Version_eq x y
      | _ \<Rightarrow> VersionRange_eq (as_range a) (as_range b))"

definition item_overlaps :: "item \<Rightarrow> item \<Rightarrow> bool" where
  "item_overlaps a b =
     (case (a, b) of
        (V x, V y) \<Rightarrow> Version_overlaps x y
      | _ \<Rightarrow> VersionRange_overlaps (as_range a) (as_range b))"

definition item_satisfies :: "item \<Rightarrow> item \<Rightarrow> bool" where
  "item_satisfies a b =
     (case (a, b) of
        (V x, V y) \<Rightarrow> Version_satisfies x y
      | _ \<Rightarrow> VersionRange_satisfies (as_range a) (as_range b))"

text \<open>\<open>item_contains self other\<close> is \<^verbatim>\<open>other in self\<close>.\<close>

definition item_contains :: "item \<Rightarrow> item \<Rightarrow> bool" where
  "item_contains a b =
     (case (a, b) of
        (V x, V y) \<Rightarrow> Version_contains x y
      | _ \<Rightarrow> VersionRange_contains (as_range a) (as_range b))"

section \<open>Union of overlapping elements\<close>

text \<open>
  The part of \<^verbatim>\<open>VersionRange.union\<close> below the comment "if we're here, then we know the
  ranges overlap": the merged range, built by the constructor with both endpoints
  included.
\<close>

definition union_start :: "Version option \<Rightarrow> Version option \<Rightarrow> Version option" where
  "union_start s os =
     (case (s, os) of
        (Some sv, Some ov) \<Rightarrow>
          (if Version_contains ov sv \<or> Version_lt ov sv then Some ov else Some sv)
      | _ \<Rightarrow> None)"

definition union_end :: "Version option \<Rightarrow> Version option \<Rightarrow> Version option" where
  "union_end e oe =
     (case (e, oe) of
        (Some ev, Some ov) \<Rightarrow>
          (if \<not> Version_contains ev ov then
             (if Version_contains ov ev \<or> Version_gt ov ev then Some ov else Some ev)
           else Some ev)
      | _ \<Rightarrow> None)"

definition union_of_overlapping :: "VersionRange \<Rightarrow> VersionRange \<Rightarrow> error + VersionRange" where
  "union_of_overlapping self other =
     VersionRange_init (union_start (start self) (start other))
       (union_end (range_end self) (range_end other)) True True"

text \<open>
  \<^verbatim>\<open>version.union(self[i])\<close> as \<^verbatim>\<open>VersionList.add\<close> calls it, after
  \<^verbatim>\<open>version.overlaps(self[i])\<close> has answered true. Between two Versions that overlap,
  \<^verbatim>\<open>Version.union\<close> returns \<^verbatim>\<open>self\<close> when \<^verbatim>\<open>self == other or other in self\<close> and \<^verbatim>\<open>other\<close>
  otherwise (then \<^verbatim>\<open>self in other\<close>); in every other case both sides are ranges that
  overlap. Lemma \<open>item_union_of_overlapping\<close> below relates this to the whole
  \<^verbatim>\<open>union\<close> method.
\<close>

definition item_union_overlapping :: "item \<Rightarrow> item \<Rightarrow> error + item" where
  "item_union_overlapping a b =
     (case (a, b) of
        (V x, V y) \<Rightarrow>
          Inr (V (if Version_eq x y \<or> Version_contains x y then x else y))
      | _ \<Rightarrow> bind_err (union_of_overlapping (as_range a) (as_range b)) (\<lambda>r. Inr (R r)))"

section \<open>VersionList.add\<close>

text \<open>
  \<^verbatim>\<open>bisect.bisect_left(a, x)\<close> of the Python standard library, with \<open>lt_x y\<close> for the
  comparison \<^verbatim>\<open>y < x\<close> it makes on the probed element (the comparison can raise).
\<close>

function bisect_left_loop :: "('a \<Rightarrow> error + bool) \<Rightarrow> 'a list \<Rightarrow> nat \<Rightarrow> nat \<Rightarrow> error + nat" where
  "bisect_left_loop lt_x a lo hi =
     (if lo < hi then
        (case lt_x (a ! ((lo + hi) div 2)) of
           Inl e \<Rightarrow> Inl e
         | Inr b \<Rightarrow>
             (if b then bisect_left_loop lt_x a ((lo + hi) div 2 + 1) hi
              else bisect_left_loop lt_x a lo ((lo + hi) div 2)))
      else Inr lo)"
  by pat_completeness auto
termination
  by (relation "measure (\<lambda>(lt_x, a, lo, hi). hi - lo)") auto

definition bisect_left :: "('a \<Rightarrow> error + bool) \<Rightarrow> 'a list \<Rightarrow> error + nat" where
  "bisect_left lt_x a = bisect_left_loop lt_x a 0 (length a)"

text \<open>
  \<^verbatim>\<open>if version.concrete: version = version.concrete\<close>: a Version is its own
  \<^verbatim>\<open>concrete\<close>; a range is replaced by the Version it reduces to when that Version is
  true (has a segment).
\<close>

definition normalize_concrete :: "item \<Rightarrow> error + item" where
  "normalize_concrete x =
     (case x of
        V v \<Rightarrow> Inr (V v)
      | R r \<Rightarrow>
          bind_err (VersionRange_concrete r) (\<lambda>c.
            case c of
              None \<Rightarrow> Inr (R r)
            | Some v \<Rightarrow> (if Version_bool v then Inr (V v) else Inr (R r))))"

text \<open>\<^verbatim>\<open>del self.versions[i]\<close> and \<^verbatim>\<open>self.versions.insert(i, version)\<close>.\<close>

definition delete_at :: "nat \<Rightarrow> 'a list \<Rightarrow> 'a list" where
  "delete_at i xs = take i xs @ drop (Suc i) xs"

definition insert_at :: "nat \<Rightarrow> 'a \<Rightarrow> 'a list \<Rightarrow> 'a list" where
  "insert_at i x xs = take i xs @ x # drop i xs"

text \<open>
  The first loop of \<^verbatim>\<open>add\<close>:
  \<^verbatim>\<open>while i - 1 >= 0 and version.overlaps(self[i - 1])\<close>. The state is the list, the
  index and the version being merged.
\<close>

function merge_backward :: "item list \<Rightarrow> nat \<Rightarrow> item \<Rightarrow> error + (item list \<times> nat \<times> item)" where
  "merge_backward xs i v =
     (if 1 \<le> i \<and> item_overlaps v (xs ! (i - 1)) then
        (case item_union_overlapping v (xs ! (i - 1)) of
           Inl e \<Rightarrow> Inl e
         | Inr v' \<Rightarrow> merge_backward (delete_at (i - 1) xs) (i - 1) v')
      else Inr (xs, i, v))"
  by pat_completeness auto
termination
  by (relation "measure (\<lambda>(xs, i, v). i)") auto

text \<open>
  The second loop: \<^verbatim>\<open>while i < len(self) and version.overlaps(self[i])\<close>.
\<close>

function merge_forward :: "item list \<Rightarrow> nat \<Rightarrow> item \<Rightarrow> error + (item list \<times> item)" where
  "merge_forward xs i v =
     (if i < length xs \<and> item_overlaps v (xs ! i) then
        (case item_union_overlapping v (xs ! i) of
           Inl e \<Rightarrow> Inl e
         | Inr v' \<Rightarrow> merge_forward (delete_at i xs) i v')
      else Inr (xs, v))"
  by pat_completeness auto
termination
  by (relation "measure (\<lambda>(xs, i, v). length xs - i)") (auto simp: delete_at_def)

text \<open>\<^verbatim>\<open>VersionList.add\<close> of a Version or a VersionRange.\<close>

definition add_item :: "item list \<Rightarrow> item \<Rightarrow> error + item list" where
  "add_item self version0 =
     bind_err (normalize_concrete version0) (\<lambda>version1.
     bind_err (bisect_left (\<lambda>y. item_lt y version1) self) (\<lambda>i.
     bind_err (merge_backward self i version1) (\<lambda>(xs, j, version2).
     bind_err (merge_forward xs j version2) (\<lambda>(ys, version3).
       Inr (insert_at j version3 ys)))))"

text \<open>\<^verbatim>\<open>for v in version: self.add(v)\<close>.\<close>

fun add_items :: "item list \<Rightarrow> item list \<Rightarrow> error + item list" where
  "add_items self [] = Inr self"
| "add_items self (v # vs) = bind_err (add_item self v) (\<lambda>self'. add_items self' vs)"

text \<open>\<^verbatim>\<open>VersionList.add\<close>.\<close>

fun add :: "item list \<Rightarrow> vobj \<Rightarrow> error + item list" where
  "add self (Item x) = add_item self x"
| "add self (VList l) = add_items self l"

text \<open>A sequence of \<^verbatim>\<open>add\<close> calls on one list.\<close>

fun add_all :: "item list \<Rightarrow> vobj list \<Rightarrow> error + item list" where
  "add_all self [] = Inr self"
| "add_all self (v # vs) = bind_err (add self v) (\<lambda>self'. add_all self' vs)"

section \<open>Printing\<close>

text \<open>\<^verbatim>\<open>str\<close> of a non-negative \<^verbatim>\<open>int\<close> and of a segment.\<close>

fun str_of_nat :: "nat \<Rightarrow> string" where
  "str_of_nat n =
     (if n < 10 then [''0123456789'' ! n]
      else str_of_nat (n div 10) @ [''0123456789'' ! (n mod 10)])"

definition str_of_int :: "int \<Rightarrow> string" where
  "str_of_int i = (if i < 0 then CHR ''-'' # str_of_nat (nat (- i)) else str_of_nat (nat i))"

definition str_of_seg :: "seg \<Rightarrow> string" where
  "str_of_seg a = (case a of SInt i \<Rightarrow> str_of_int i | SStr t \<Rightarrow> t)"

text \<open>
  \<^verbatim>\<open>VersionRange.__str__\<close>, with its assertions; \<open>str_of_version\<close> is
  \<^verbatim>\<open>Version.__str__\<close>.
\<close>

definition str_of_version :: "Version \<Rightarrow> string" where
  "str_of_version v = string v"

definition str_of_opt :: "Version option \<Rightarrow> string" where
  "str_of_opt x = (case x of None \<Rightarrow> ''None'' | Some v \<Rightarrow> str_of_version v)"

definition str_of_range :: "VersionRange \<Rightarrow> error + string" where
  "str_of_range self =
     (if opt_Version_eq (start self) (range_end self) then
        (if start self = None then Inr '':''
         else if includes_left_endpoint self \<noteq> includes_right_endpoint self then Inl AssertionError
         else if includes_left_endpoint self then Inr (str_of_opt (start self))
         else Inr ('':!'' @ str_of_opt (start self) @ ''!:''))
      else if start self = None then
        (if \<not> includes_left_endpoint self then Inl AssertionError
         else if includes_right_endpoint self then Inr ('':'' @ str_of_opt (range_end self))
         else Inr ('':!'' @ str_of_opt (range_end self)))
      else if range_end self = None then
        (if \<not> includes_right_endpoint self then Inl AssertionError
         else if includes_left_endpoint self then Inr (str_of_opt (start self) @ '':'')
         else Inr (str_of_opt (start self) @ ''!:''))
      else if \<not> includes_left_endpoint self \<and> \<not> includes_right_endpoint self then
        Inr (str_of_opt (start self) @ ''!:!'' @ str_of_opt (range_end self))
      else if \<not> includes_right_endpoint self then
        Inr (str_of_opt (start self) @ '':!'' @ str_of_opt (range_end self))
      else if \<not> includes_left_endpoint self then
        Inr (str_of_opt (start self) @ ''!:'' @ str_of_opt (range_end self))
      else Inr (str_of_opt (start self) @ '':'' @ str_of_opt (range_end self)))"

definition str_of_item :: "item \<Rightarrow> error + string" where
  "str_of_item x = (case x of V v \<Rightarrow> Inr (str_of_version v) | R r \<Rightarrow> str_of_range r)"

text \<open>\<^verbatim>\<open>VersionList.__str__\<close>: \<^verbatim>\<open>",".join(str(v) for v in self.versions)\<close>.\<close>

fun join_comma :: "string list \<Rightarrow> string" where
  "join_comma [] = []"
| "join_comma [x] = x"
| "join_comma (x # y # ys) = x @ '','' @ join_comma (y # ys)"

fun strs_of_items :: "item list \<Rightarrow> error + string list" where
  "strs_of_items [] = Inr []"
| "strs_of_items (x # xs) =
     bind_err (str_of_item x) (\<lambda>t. bind_err (strs_of_items xs) (\<lambda>ts. Inr (t # ts)))"

definition str_of_list :: "item list \<Rightarrow> error + string" where
  "str_of_list l = bind_err (strs_of_items l) (\<lambda>ts. Inr (join_comma ts))"

definition str_of_obj :: "vobj \<Rightarrow> error + string" where
  "str_of_obj x = (case x of Item i \<Rightarrow> str_of_item i | VList l \<Rightarrow> str_of_list l)"

section \<open>Starred versions\<close>

text \<open>The \<^verbatim>\<open>dotted\<close> property: the Version of the string with \<^verbatim>\<open>-\<close> and \<^verbatim>\<open>_\<close> replaced by dots.\<close>

definition dotted :: "Version \<Rightarrow> error + Version" where
  "dotted v =
     Version_init (map (\<lambda>c. if c = CHR ''-'' \<or> c = CHR ''_'' then CHR ''.'' else c) (string v))"

text \<open>
  \<^verbatim>\<open>VersionRange.has_star_component\<close> on a Version or \<^verbatim>\<open>None\<close>: false for a false object,
  otherwise whether a separator of the dotted version starts with \<^verbatim>\<open>.*\<close>.
\<close>

definition has_star_component :: "Version option \<Rightarrow> error + bool" where
  "has_star_component obj =
     (case obj of
        None \<Rightarrow> Inr False
      | Some v \<Rightarrow>
          (if \<not> Version_bool v then Inr False
           else bind_err (dotted v) (\<lambda>d.
                  Inr (list_ex (\<lambda>sep. take 2 sep = ''.*'') (separators d)))))"

text \<open>
  \<^verbatim>\<open>re.sub(r'^.\*', '', s)\<close>: a leading character other than a newline followed by a
  star is removed.
\<close>

fun remove_leading_star :: "string \<Rightarrow> string" where
  "remove_leading_star (c # d # cs) =
     (if c \<noteq> CHR 0x0A \<and> d = CHR ''*'' then cs else c # d # cs)"
| "remove_leading_star cs = cs"

text \<open>\<^verbatim>\<open>''.join(str(k) + str(v) for k, v in zip(components, seps))\<close>.\<close>

definition join_components :: "seg list \<Rightarrow> string list \<Rightarrow> string" where
  "join_components ks vs = concat (map (\<lambda>(k, v). str_of_seg k @ v) (zip ks vs))"

text \<open>
  \<^verbatim>\<open>VersionRange.check_for_star_components\<close> on endpoints that are Versions or \<^verbatim>\<open>None\<close>.
  In its last branches \<^verbatim>\<open>high_end[-1] += 1\<close> raises \<^verbatim>\<open>IndexError\<close> on an empty list and
  \<^verbatim>\<open>TypeError\<close> on a string; the two-element \<^verbatim>\<open>VersionList\<close> of the excluded case is
  built by \<^verbatim>\<open>add\<close> (\<^verbatim>\<open>ver\<close> returns a VersionRange as it is).
\<close>

definition check_for_star_components ::
  "Version option \<Rightarrow> Version option \<Rightarrow> bool \<Rightarrow> bool \<Rightarrow> error + vobj" where
  "check_for_star_components start' end' il ir =
     bind_err (VersionRange_init start' end' il ir) (\<lambda>would_be_range.
     bind_err (has_star_component start') (\<lambda>hs.
     bind_err (has_star_component end') (\<lambda>he.
       let any_dotted_versions = (if hs then [start'] else []) @ (if he then [end'] else []) in
       if \<not> opt_Version_eq start' end' then
         (if any_dotted_versions \<noteq> [] then Inl StarInInequality
          else Inr (Item (R would_be_range)))
       else if il \<noteq> ir then Inl AssertionError
       else if length any_dotted_versions = 0 then Inr (Item (R would_be_range))
       else
         (case start' of
            None \<Rightarrow> Inl AssertionError
          | Some sv \<Rightarrow>
              (if version sv = [] then Inl IndexError
               else
                 let suffix = (case last (version sv) of SInt n \<Rightarrow> [] | SStr t \<Rightarrow> t);
                     low_end = (case last (version sv) of
                                  SInt n \<Rightarrow> version sv
                                | SStr t \<Rightarrow> butlast (version sv))
                 in
                 if low_end = [] then Inl IndexError
                 else
                   (case last low_end of
                      SStr t \<Rightarrow> Inl TypeError
                    | SInt n \<Rightarrow>
                        let high_end = butlast low_end @ [SInt (n + 1)];
                            fixed_seps = map remove_leading_star (separators sv)
                        in
                        bind_err (Version_init (join_components low_end fixed_seps @ suffix)) (\<lambda>low_ver.
                        bind_err (Version_init (join_components high_end fixed_seps @ suffix)) (\<lambda>high_ver.
                          if \<not> il then
                            bind_err (VersionRange_init None (Some low_ver) True False) (\<lambda>low_side.
                            bind_err (VersionRange_init (Some high_ver) None True True) (\<lambda>high_side.
                            bind_err (add_items [] [R low_side, R high_side]) (\<lambda>l.
                              Inr (VList l))))
                          else
                            bind_err (VersionRange_init (Some low_ver) (Some high_ver) True False) (\<lambda>r.
                              Inr (Item (R r)))))))))))"

section \<open>The parser\<close>

text \<open>
  \<^verbatim>\<open>ver\<close> on a value that is already a Version, a VersionRange or a VersionList: a
  Version with a star component is expanded, anything else is returned as it is.
\<close>

definition ver_obj :: "vobj \<Rightarrow> error + vobj" where
  "ver_obj obj =
     (case obj of
        Item (V v) \<Rightarrow>
          bind_err (has_star_component (Some v)) (\<lambda>h.
            if h then check_for_star_components (Some v) (Some v) True True
            else Inr obj)
      | _ \<Rightarrow> Inr obj)"

text \<open>
  \<^verbatim>\<open>VersionList.__init__\<close> on a list of values: \<^verbatim>\<open>for v in vlist: self.add(ver(v))\<close>, starting
  from the empty list.
\<close>

fun add_each_ver :: "item list \<Rightarrow> vobj list \<Rightarrow> error + item list" where
  "add_each_ver self [] = Inr self"
| "add_each_ver self (v # vs) =
     bind_err (ver_obj v) (\<lambda>w. bind_err (add self w) (\<lambda>self'. add_each_ver self' vs))"

definition VersionList_init :: "vobj list \<Rightarrow> error + item list" where
  "VersionList_init vlist = add_each_ver [] vlist"

text \<open>\<^verbatim>\<open>str.split(sep)\<close> for a one-character separator, and \<^verbatim>\<open>string.replace(' ', '')\<close>.\<close>

fun split_on :: "char \<Rightarrow> string \<Rightarrow> string list" where
  "split_on sep [] = [[]]"
| "split_on sep (c # cs) =
     (if c = sep then [] # split_on sep cs
      else (case split_on sep cs of
              [] \<Rightarrow> [[c]]
            | p # ps \<Rightarrow> (c # p) # ps))"

definition remove_spaces :: "string \<Rightarrow> string" where
  "remove_spaces s = filter (\<lambda>c. c \<noteq> CHR '' '') s"

text \<open>\<^verbatim>\<open>Version(s) if s else None\<close>.\<close>

definition Version_if_nonempty :: "string \<Rightarrow> error + Version option" where
  "Version_if_nonempty s = (if s = [] then Inr None else bind_err (Version_init s) (\<lambda>v. Inr (Some v)))"

text \<open>
  The \<^verbatim>\<open>elif ':' in string\<close> and \<^verbatim>\<open>else\<close> branches of \<^verbatim>\<open>_string_to_version\<close>, for a string
  with no comma: \<^verbatim>\<open>s, e = string.split(':')\<close> needs exactly two pieces.
\<close>

definition string_to_item :: "string \<Rightarrow> error + item" where
  "string_to_item s =
     (if CHR '':'' \<in> set s then
        (case split_on (CHR '':'') s of
           [s', e'] \<Rightarrow>
             bind_err (Version_if_nonempty s') (\<lambda>start'.
             bind_err (Version_if_nonempty e') (\<lambda>end'.
             bind_err (VersionRange_init start' end' True True) (\<lambda>r. Inr (R r))))
         | _ \<Rightarrow> Inl UnpackError)
      else bind_err (Version_init s) (\<lambda>v. Inr (V v)))"

text \<open>
  \<^verbatim>\<open>ver\<close> on one piece of \<^verbatim>\<open>string.split(',')\<close>, as \<^verbatim>\<open>VersionList.__init__\<close> calls it:
  the piece has no comma and no space left, so \<^verbatim>\<open>_string_to_version\<close> takes one of its last
  two branches, and \<^verbatim>\<open>ver\<close> is called again on the result.
\<close>

definition ver_piece :: "string \<Rightarrow> error + vobj" where
  "ver_piece s = bind_err (string_to_item s) (\<lambda>x. ver_obj (Item x))"

fun add_each_piece :: "item list \<Rightarrow> string list \<Rightarrow> error + item list" where
  "add_each_piece self [] = Inr self"
| "add_each_piece self (p # ps) =
     bind_err (ver_piece p) (\<lambda>w. bind_err (add self w) (\<lambda>self'. add_each_piece self' ps))"

text \<open>\<^verbatim>\<open>_string_to_version\<close>.\<close>

definition string_to_version :: "string \<Rightarrow> error + vobj" where
  "string_to_version string0 =
     (let s = remove_spaces string0 in
      if CHR '','' \<in> set s then
        bind_err (add_each_piece [] (split_on (CHR '','') s)) (\<lambda>l. Inr (VList l))
      else bind_err (string_to_item s) (\<lambda>x. Inr (Item x)))"

text \<open>\<^verbatim>\<open>ver\<close> on a string: \<^verbatim>\<open>ver(_string_to_version(obj))\<close>.\<close>

definition ver :: "string \<Rightarrow> error + vobj" where
  "ver s = bind_err (string_to_version s) ver_obj"

section \<open>The union methods\<close>

text \<open>\<^verbatim>\<open>Version.union\<close> on two Versions.\<close>

definition Version_union :: "Version \<Rightarrow> Version \<Rightarrow> error + vobj" where
  "Version_union self other =
     (if Version_eq self other \<or> Version_contains self other then Inr (Item (V self))
      else if Version_contains other self then Inr (Item (V other))
      else bind_err (VersionList_init [Item (V self), Item (V other)]) (\<lambda>l. Inr (VList l)))"

text \<open>
  \<^verbatim>\<open>self.end is not None and other.start is not None and self.end.is_predecessor(other.start)\<close>.
\<close>

definition end_is_predecessor :: "Version option \<Rightarrow> Version option \<Rightarrow> error + bool" where
  "end_is_predecessor e s =
     (case (e, s) of
        (Some ev, Some sv) \<Rightarrow> is_predecessor ev sv
      | _ \<Rightarrow> Inr False)"

text \<open>\<^verbatim>\<open>VersionRange.union\<close> on two ranges.\<close>

definition VersionRange_union :: "VersionRange \<Rightarrow> VersionRange \<Rightarrow> error + vobj" where
  "VersionRange_union self other =
     (if \<not> VersionRange_overlaps self other then
        bind_err (end_is_predecessor (range_end self) (start other)) (\<lambda>p1.
          if p1 then
            bind_err (VersionRange_init (start self) (range_end other) True True) (\<lambda>r.
              Inr (Item (R r)))
          else
            bind_err (end_is_predecessor (range_end other) (start self)) (\<lambda>p2.
              if p2 then
                bind_err (VersionRange_init (start other) (range_end self) True True) (\<lambda>r.
                  Inr (Item (R r)))
              else
                bind_err (VersionList_init [Item (R self), Item (R other)]) (\<lambda>l.
                  Inr (VList l))))
      else bind_err (union_of_overlapping self other) (\<lambda>r. Inr (Item (R r))))"

text \<open>The \<^verbatim>\<open>union\<close> method between two elements, under \<^verbatim>\<open>coerced\<close>.\<close>

definition item_union :: "item \<Rightarrow> item \<Rightarrow> error + vobj" where
  "item_union a b =
     (case (a, b) of
        (V x, V y) \<Rightarrow> Version_union x y
      | _ \<Rightarrow> VersionRange_union (as_range a) (as_range b))"

section \<open>VersionList\<close>

text \<open>\<^verbatim>\<open>lowest\<close> and \<^verbatim>\<open>highest\<close>.\<close>

definition item_lowest :: "item \<Rightarrow> Version option" where
  "item_lowest x = (case x of V v \<Rightarrow> Some v | R r \<Rightarrow> start r)"

definition item_highest :: "item \<Rightarrow> Version option" where
  "item_highest x = (case x of V v \<Rightarrow> Some v | R r \<Rightarrow> range_end r)"

definition VersionList_lowest :: "item list \<Rightarrow> Version option" where
  "VersionList_lowest self = (if self = [] then None else item_lowest (hd self))"

definition VersionList_highest :: "item list \<Rightarrow> Version option" where
  "VersionList_highest self = (if self = [] then None else item_highest (last self))"

text \<open>
  \<^verbatim>\<open>VersionList.__eq__\<close> and \<^verbatim>\<open>VersionList.__lt__\<close> on two lists: Python's comparison of
  the two \<^verbatim>\<open>versions\<close> lists. \<^verbatim>\<open><\<close> looks for the first index where the elements are not
  \<^verbatim>\<open>==\<close> and answers with \<^verbatim>\<open><\<close> of the two elements there; without such an index the
  shorter list is smaller.
\<close>

definition VersionList_eq :: "item list \<Rightarrow> item list \<Rightarrow> bool" where
  "VersionList_eq self other = list_all2 item_eq self other"

fun VersionList_lt :: "item list \<Rightarrow> item list \<Rightarrow> error + bool" where
  "VersionList_lt [] [] = Inr False"
| "VersionList_lt [] (y # ys) = Inr True"
| "VersionList_lt (x # xs) [] = Inr False"
| "VersionList_lt (x # xs) (y # ys) = (if item_eq x y then VersionList_lt xs ys else item_lt x y)"

text \<open>
  The sweep of \<^verbatim>\<open>VersionList.overlaps\<close> and of \<^verbatim>\<open>VersionList.satisfies\<close>, on what is left
  of the two lists (\<^verbatim>\<open>self[s:]\<close> and \<^verbatim>\<open>other[o:]\<close>); \<open>rel\<close> is the element method called.
\<close>

fun sweep :: "(item \<Rightarrow> item \<Rightarrow> bool) \<Rightarrow> item list \<Rightarrow> item list \<Rightarrow> error + bool" where
  "sweep rel (x # xs) (y # ys) =
     (if rel x y then Inr True
      else (case item_lt x y of
              Inl e \<Rightarrow> Inl e
            | Inr b \<Rightarrow> (if b then sweep rel xs (y # ys) else sweep rel (x # xs) ys)))"
| "sweep rel [] ys = Inr False"
| "sweep rel xs [] = Inr False"

definition VersionList_overlaps :: "item list \<Rightarrow> item list \<Rightarrow> error + bool" where
  "VersionList_overlaps self other =
     (if other = [] \<or> self = [] then Inr False else sweep item_overlaps self other)"

text \<open>
  \<^verbatim>\<open>coerce_versions\<close>: both values moved to the greater of their two types, in the order
  Version, VersionRange, VersionList. A list is built by \<^verbatim>\<open>VersionList([b])\<close>.
\<close>

definition coerce_versions :: "vobj \<Rightarrow> vobj \<Rightarrow> error + (vobj \<times> vobj)" where
  "coerce_versions a b =
     (case (a, b) of
        (Item (V x), Item (V y)) \<Rightarrow> Inr (a, b)
      | (Item (R x), Item (R y)) \<Rightarrow> Inr (a, b)
      | (VList k, VList l) \<Rightarrow> Inr (a, b)
      | (Item (R x), Item (V y)) \<Rightarrow> Inr (a, Item (R (as_range (V y))))
      | (Item (V x), Item (R y)) \<Rightarrow> Inr (Item (R (as_range (V x))), b)
      | (VList k, Item y) \<Rightarrow> bind_err (VersionList_init [Item y]) (\<lambda>l. Inr (a, VList l))
      | (Item x, VList l) \<Rightarrow> bind_err (VersionList_init [Item x]) (\<lambda>k. Inr (VList k, b)))"

text \<open>\<^verbatim>\<open>a < b\<close> and \<^verbatim>\<open>a == b\<close> between any two values, through \<^verbatim>\<open>coerced\<close>.\<close>

definition obj_lt :: "vobj \<Rightarrow> vobj \<Rightarrow> error + bool" where
  "obj_lt a b =
     bind_err (coerce_versions a b) (\<lambda>(ca, cb).
       case (ca, cb) of
         (Item x, Item y) \<Rightarrow> item_lt x y
       | (VList k, VList l) \<Rightarrow> VersionList_lt k l
       | _ \<Rightarrow> Inl TypeError)"

definition obj_eq :: "vobj \<Rightarrow> vobj \<Rightarrow> error + bool" where
  "obj_eq a b =
     bind_err (coerce_versions a b) (\<lambda>(ca, cb).
       case (ca, cb) of
         (Item x, Item y) \<Rightarrow> Inr (item_eq x y)
       | (VList k, VList l) \<Rightarrow> Inr (VersionList_eq k l)
       | _ \<Rightarrow> Inl TypeError)"

text \<open>
  \<^verbatim>\<open>VersionList.__contains__\<close> on two lists: \<open>VersionList_contains self other\<close> is
  \<^verbatim>\<open>other in self\<close>. The loop runs over the elements of \<^verbatim>\<open>other\<close>; the index comes from
  \<^verbatim>\<open>bisect_left(self, other)\<close>, which compares the elements of \<^verbatim>\<open>self\<close> with the list
  \<^verbatim>\<open>other\<close>.
\<close>

fun contains_loop :: "item list \<Rightarrow> item list \<Rightarrow> item list \<Rightarrow> error + bool" where
  "contains_loop self other [] = Inr True"
| "contains_loop self other (v # rest) =
     (case bisect_left (\<lambda>y. obj_lt (Item y) (VList other)) self of
        Inl e \<Rightarrow> Inl e
      | Inr i \<Rightarrow>
          (if i = 0 then
             (if \<not> item_contains (self ! 0) v then Inr False
              else contains_loop self other rest)
           else if list_all (\<lambda>w. \<not> item_contains w v) (drop (i - 1) self) then Inr False
           else contains_loop self other rest))"

definition VersionList_contains :: "item list \<Rightarrow> item list \<Rightarrow> error + bool" where
  "VersionList_contains self other =
     (if length self = 0 then Inr False else contains_loop self other other)"

text \<open>
  \<^verbatim>\<open>VersionList.satisfies\<close> on two lists; with \<^verbatim>\<open>strict\<close> it is \<^verbatim>\<open>self in other\<close>.
\<close>

definition VersionList_satisfies :: "item list \<Rightarrow> item list \<Rightarrow> bool \<Rightarrow> error + bool" where
  "VersionList_satisfies self other strict =
     (if other = [] \<or> self = [] then Inr False
      else if strict then VersionList_contains other self
      else sweep item_satisfies self other)"

text \<open>
  The three methods between any two values, through \<^verbatim>\<open>coerced\<close>: \<open>obj_contains a b\<close> is
  \<^verbatim>\<open>b in a\<close>.
\<close>

definition obj_overlaps :: "vobj \<Rightarrow> vobj \<Rightarrow> error + bool" where
  "obj_overlaps a b =
     bind_err (coerce_versions a b) (\<lambda>(ca, cb).
       case (ca, cb) of
         (Item x, Item y) \<Rightarrow> Inr (item_overlaps x y)
       | (VList k, VList l) \<Rightarrow> VersionList_overlaps k l
       | _ \<Rightarrow> Inl TypeError)"

definition obj_satisfies :: "vobj \<Rightarrow> vobj \<Rightarrow> bool \<Rightarrow> error + bool" where
  "obj_satisfies a b strict =
     bind_err (coerce_versions a b) (\<lambda>(ca, cb).
       case (ca, cb) of
         (Item x, Item y) \<Rightarrow> Inr (item_satisfies x y)
       | (VList k, VList l) \<Rightarrow> VersionList_satisfies k l strict
       | _ \<Rightarrow> Inl TypeError)"

definition obj_contains :: "vobj \<Rightarrow> vobj \<Rightarrow> error + bool" where
  "obj_contains a b =
     bind_err (coerce_versions a b) (\<lambda>(ca, cb).
       case (ca, cb) of
         (Item x, Item y) \<Rightarrow> Inr (item_contains x y)
       | (VList k, VList l) \<Rightarrow> VersionList_contains k l
       | _ \<Rightarrow> Inl TypeError)"

text \<open>
  The same three methods of a VersionList called with \<^verbatim>\<open>None\<close>, which \<^verbatim>\<open>coerced\<close> passes
  on as it is: \<^verbatim>\<open>not other\<close> holds, and \<^verbatim>\<open>__contains__\<close> iterates over \<^verbatim>\<open>None\<close> unless the
  list is empty.
\<close>

definition VersionList_overlaps_None :: "item list \<Rightarrow> error + bool" where
  "VersionList_overlaps_None self = Inr False"

definition VersionList_satisfies_None :: "item list \<Rightarrow> bool \<Rightarrow> error + bool" where
  "VersionList_satisfies_None self strict = Inr False"

definition VersionList_contains_None :: "item list \<Rightarrow> error + bool" where
  "VersionList_contains_None self = (if length self = 0 then Inr False else Inl TypeError)"

section \<open>Basic facts\<close>

lemma bind_err_simps [simp]:
  "bind_err (Inl e) f = Inl e"
  "bind_err (Inr x) f = f x"
  by (simp_all add: bind_err_def)

lemma bind_err_eq_Inr:
  "bind_err m f = Inr y \<longleftrightarrow> (\<exists>x. m = Inr x \<and> f x = Inr y)"
  by (cases m) simp_all

section \<open>The order on Versions\<close>

text \<open>
  Each segment is given a key in a linear order: the class of the segment (alphabetic,
  integer, infinity token), then its value. \<^verbatim>\<open>Version.__lt__\<close> is the lexicographic order
  of the key sequences.
\<close>

definition seg_key :: "seg \<Rightarrow> nat \<times> int \<times> string" where
  "seg_key a =
     (if in_infinity_versions a then (2, - int (infinity_index a), [])
      else (case a of SInt x \<Rightarrow> (1, x, []) | SStr s \<Rightarrow> (0, 0, s)))"

lemma seg_key_inj: "seg_key a = seg_key b \<Longrightarrow> a = b"
  by (cases a; cases b) (auto simp: seg_key_def infinity_versions_def split: if_splits)

lemma segment_lt_key: "segment_lt a b \<longleftrightarrow> seg_key a < seg_key b"
  by (cases a; cases b) (auto simp: seg_key_def)

lemma lt_loop_key:
  "(case lt_loop (zip xs ys) of Some r \<Rightarrow> r | None \<Rightarrow> length xs < length ys)
     \<longleftrightarrow> map seg_key xs < map seg_key ys"
proof (induction xs arbitrary: ys)
  case Nil
  then show ?case by (cases ys) auto
next
  case (Cons a xs)
  show ?case
  proof (cases ys)
    case Nil
    then show ?thesis by simp
  next
    case ys: (Cons b ys')
    show ?thesis
    proof (cases "a = b")
      case True
      then show ?thesis using Cons.IH [of ys'] ys by (simp split: option.splits)
    next
      case False
      then have "seg_key a \<noteq> seg_key b" using seg_key_inj by blast
      then show ?thesis using False ys by (simp add: segment_lt_key del: segment_lt.simps)
    qed
  qed
qed

definition vkey :: "Version \<Rightarrow> (nat \<times> int \<times> string) list" where
  "vkey x = map seg_key (version x)"

lemma Version_lt_key: "Version_lt x y \<longleftrightarrow> vkey x < vkey y"
  unfolding Version_lt_def vkey_def using lt_loop_key [of "version x" "version y"] by auto

lemma Version_eq_key: "Version_eq x y \<longleftrightarrow> vkey x = vkey y"
proof -
  have "inj seg_key" using seg_key_inj by (auto simp: inj_on_def)
  then show ?thesis unfolding Version_eq_def vkey_def by (simp add: inj_map_eq_map)
qed

lemma Version_lt_first_difference:
  assumes "version x = p @ a # r" and "version y = p @ b # r'" and "a \<noteq> b"
  shows "Version_lt x y \<longleftrightarrow> segment_lt a b"
proof -
  have "lt_loop (zip (p @ a # r) (p @ b # r')) = Some (segment_lt a b)"
    using assms(3) by (induction p) (simp_all del: segment_lt.simps)
  moreover have "p @ a # r \<noteq> p @ b # r'" using assms(3) by simp
  ultimately show ?thesis
    unfolding Version_lt_def assms(1,2) using assms(3) by (simp del: segment_lt.simps)
qed

lemma Version_lt_strict_prefix:
  assumes "strict_prefix (version x) (version y)"
  shows "Version_lt x y"
proof -
  obtain c r where y: "version y = version x @ c # r"
    using assms by (auto simp: strict_prefix_def prefix_def neq_Nil_conv)
  have "lt_loop (zip xs (xs @ c # r)) = None" for xs
    by (induction xs) simp_all
  then show ?thesis using y by (simp add: Version_lt_def)
qed

text \<open>
  C1. The strict order \<^verbatim>\<open>Version.__lt__\<close> is a strict total order with respect to
  \<^verbatim>\<open>Version.__eq__\<close>, on all Versions (so on those built from valid strings): it is
  transitive, and exactly one of \<open>x < y\<close>, \<open>x == y\<close>, \<open>y < x\<close> holds. At the first pair
  of segments that differ the verdict is that of the segments, where an infinity token is
  above every segment that is none and an integer is above every alphabetic segment that
  is no infinity token; and a Version whose segments are a proper prefix of another's is
  the smaller one.
\<close>

theorem Version_lt_strict_total_order:
  "(Version_lt x y \<and> Version_lt y z \<longrightarrow> Version_lt x z) \<and>
   ((Version_lt x y \<and> \<not> Version_eq x y \<and> \<not> Version_lt y x) \<or>
    (\<not> Version_lt x y \<and> Version_eq x y \<and> \<not> Version_lt y x) \<or>
    (\<not> Version_lt x y \<and> \<not> Version_eq x y \<and> Version_lt y x)) \<and>
   (version x = p @ a # r \<and> version y = p @ b # r' \<and> a \<noteq> b \<longrightarrow>
      (Version_lt x y \<longleftrightarrow> segment_lt a b)) \<and>
   (in_infinity_versions a \<and> \<not> in_infinity_versions b \<longrightarrow>
      segment_lt b a \<and> \<not> segment_lt a b) \<and>
   (\<not> in_infinity_versions (SStr t) \<longrightarrow>
      segment_lt (SStr t) (SInt n) \<and> \<not> segment_lt (SInt n) (SStr t)) \<and>
   (strict_prefix (version x) (version y) \<longrightarrow> Version_lt x y \<and> \<not> Version_lt y x)"
proof -
  have trans: "Version_lt x y \<and> Version_lt y z \<longrightarrow> Version_lt x z"
    by (auto simp: Version_lt_key)
  have tri: "(Version_lt x y \<and> \<not> Version_eq x y \<and> \<not> Version_lt y x) \<or>
    (\<not> Version_lt x y \<and> Version_eq x y \<and> \<not> Version_lt y x) \<or>
    (\<not> Version_lt x y \<and> \<not> Version_eq x y \<and> Version_lt y x)"
    unfolding Version_lt_key Version_eq_key by (rule linorder_cases [of "vkey x" "vkey y"]) auto
  have first: "version x = p @ a # r \<and> version y = p @ b # r' \<and> a \<noteq> b \<longrightarrow>
      (Version_lt x y \<longleftrightarrow> segment_lt a b)"
    using Version_lt_first_difference by blast
  have inf: "in_infinity_versions a \<and> \<not> in_infinity_versions b \<longrightarrow>
      segment_lt b a \<and> \<not> segment_lt a b"
    by simp
  have num: "\<not> in_infinity_versions (SStr t) \<longrightarrow>
      segment_lt (SStr t) (SInt n) \<and> \<not> segment_lt (SInt n) (SStr t)"
    by simp
  have pre: "strict_prefix (version x) (version y) \<longrightarrow> Version_lt x y \<and> \<not> Version_lt y x"
    using Version_lt_strict_prefix [of x y] by (auto simp: Version_lt_key)
  from trans tri first inf num pre show ?thesis by blast
qed

lemma Version_init_examples:
  "Version_init ''1.2'' =
     Inr \<lparr> string = ''1.2'', version = [SInt 1, SInt 2], separators = [''.'', ''''] \<rparr>"
  "Version_init ''1.2rc'' =
     Inr \<lparr> string = ''1.2rc'', version = [SInt 1, SInt 2, SStr ''rc''],
           separators = [''.'', '''', ''''] \<rparr>"
  "Version_init ''1.2.3'' =
     Inr \<lparr> string = ''1.2.3'', version = [SInt 1, SInt 2, SInt 3],
           separators = [''.'', ''.'', ''''] \<rparr>"
  "Version_init ''1.develop'' =
     Inr \<lparr> string = ''1.develop'', version = [SInt 1, SStr ''develop''],
           separators = [''.'', ''''] \<rparr>"
  by code_simp+

theorem Version_lt_strict_total_order_witness:
  "Version_init ''1.2rc'' =
     Inr \<lparr> string = ''1.2rc'', version = [SInt 1, SInt 2, SStr ''rc''],
           separators = [''.'', '''', ''''] \<rparr> \<and>
   Version_init ''1.2.3'' =
     Inr \<lparr> string = ''1.2.3'', version = [SInt 1, SInt 2, SInt 3],
           separators = [''.'', ''.'', ''''] \<rparr> \<and>
   Version_init ''1.develop'' =
     Inr \<lparr> string = ''1.develop'', version = [SInt 1, SStr ''develop''],
           separators = [''.'', ''''] \<rparr> \<and>
   Version_lt
     \<lparr> string = ''1.2rc'', version = [SInt 1, SInt 2, SStr ''rc''],
       separators = [''.'', '''', ''''] \<rparr>
     \<lparr> string = ''1.2.3'', version = [SInt 1, SInt 2, SInt 3],
       separators = [''.'', ''.'', ''''] \<rparr> \<and>
   Version_lt
     \<lparr> string = ''1.2.3'', version = [SInt 1, SInt 2, SInt 3],
       separators = [''.'', ''.'', ''''] \<rparr>
     \<lparr> string = ''1.develop'', version = [SInt 1, SStr ''develop''],
       separators = [''.'', ''''] \<rparr> \<and>
   Version_lt
     \<lparr> string = ''1.2rc'', version = [SInt 1, SInt 2, SStr ''rc''],
       separators = [''.'', '''', ''''] \<rparr>
     \<lparr> string = ''1.develop'', version = [SInt 1, SStr ''develop''],
       separators = [''.'', ''''] \<rparr> \<and>
   segment_lt (SStr ''rc'') (SInt 3) \<and> segment_lt (SInt 2) (SStr ''develop'')"
  using Version_lt_strict_total_order
    [of "\<lparr> string = ''1.2rc'', version = [SInt 1, SInt 2, SStr ''rc''],
           separators = [''.'', '''', ''''] \<rparr>"
        "\<lparr> string = ''1.2.3'', version = [SInt 1, SInt 2, SInt 3],
           separators = [''.'', ''.'', ''''] \<rparr>"
        "\<lparr> string = ''1.develop'', version = [SInt 1, SStr ''develop''],
           separators = [''.'', ''''] \<rparr>"
        "[SInt 1, SInt 2]" "SStr ''rc''" "[]" "SInt 3" "[]" "''rc''" 3]
    Version_init_examples
  by (simp add: Version_lt_def infinity_versions_def)

section \<open>The constructor's character test\<close>

lemma Version_init_accepts_valid:
  assumes "s \<noteq> []" and "list_all valid_version_char s"
  shows "\<exists>v. Version_init s = Inr v"
  using assms by (cases s) (simp_all add: Version_init_def Let_def)

text \<open>
  C7. The constructor tests its first character only: \<^verbatim>\<open>re.match\<close> with a pattern of one
  character class. The string \<^verbatim>\<open>1@2\<close> holds \<^verbatim>\<open>@\<close>, which is outside the class, and is
  accepted (while every non-empty string of valid characters is accepted, lemma
  \<open>Version_init_accepts_valid\<close>).
\<close>

theorem Version_init_accepts_bad_character:
  "\<not> valid_version_char (CHR ''@'') \<and>
   Version_init ''1@2'' =
     Inr \<lparr> string = ''1@2'', version = [SInt 1, SInt 2], separators = [''@'', ''''] \<rparr>"
  by (simp add: Version_init_def valid_version_char_def is_alpha_def is_digit_def strip_def
      is_space_def int_if_int_def int_of_digits_def digit_value_def split_segments_def)

section \<open>The order on endpoints\<close>

lemma VersionEndpoint_lt_equal_values:
  assumes "opt_Version_eq (endpoint_value s) (endpoint_value t)"
    and "location s = location t"
    and "includes_endpoint s" and "\<not> includes_endpoint t"
  shows "VersionEndpoint_lt s t = Inr True" and "VersionEndpoint_lt t s = Inr False"
proof -
  have "opt_Version_eq (endpoint_value t) (endpoint_value s)"
    using assms(1) by (auto simp: opt_Version_eq_def Version_eq_def split: option.splits)
  then show "VersionEndpoint_lt s t = Inr True" and "VersionEndpoint_lt t s = Inr False"
    using assms by (simp_all add: VersionEndpoint_lt_def)
qed

text \<open>
  C5. For two endpoints of equal value of which one includes the value,
  \<^verbatim>\<open>_VersionEndpoint.__lt__\<close> returns \<^verbatim>\<open>s.includes_endpoint\<close> whatever the side (lemma
  \<open>VersionEndpoint_lt_equal_values\<close>): the endpoint that includes its value is the
  smaller one on the left side and on the right side alike. On the right side, at the
  value \<^verbatim>\<open>1.2\<close>, the included endpoint is below the excluded one.
\<close>

theorem VersionEndpoint_lt_right_included_is_less:
  "VersionEndpoint_lt
     \<lparr> endpoint_value =
         Some \<lparr> string = ''1.2'', version = [SInt 1, SInt 2], separators = [''.'', ''''] \<rparr>,
       location = Right, includes_endpoint = True \<rparr>
     \<lparr> endpoint_value =
         Some \<lparr> string = ''1.2'', version = [SInt 1, SInt 2], separators = [''.'', ''''] \<rparr>,
       location = Right, includes_endpoint = False \<rparr> = Inr True \<and>
   VersionEndpoint_lt
     \<lparr> endpoint_value =
         Some \<lparr> string = ''1.2'', version = [SInt 1, SInt 2], separators = [''.'', ''''] \<rparr>,
       location = Right, includes_endpoint = False \<rparr>
     \<lparr> endpoint_value =
         Some \<lparr> string = ''1.2'', version = [SInt 1, SInt 2], separators = [''.'', ''''] \<rparr>,
       location = Right, includes_endpoint = True \<rparr> = Inr False"
  by (simp add: VersionEndpoint_lt_def opt_Version_eq_def Version_eq_def)

section \<open>The empty VersionList\<close>

lemma VersionList_methods_empty:
  "VersionList_overlaps [] k = Inr False" "VersionList_overlaps k [] = Inr False"
  "VersionList_satisfies [] k strict = Inr False" "VersionList_satisfies k [] strict = Inr False"
  "VersionList_contains [] k = Inr False"
  by (simp_all add: VersionList_overlaps_def VersionList_satisfies_def VersionList_contains_def)

lemma coerce_versions_empty_left:
  "(\<exists>e. coerce_versions (VList []) x = Inl e) \<or>
   (\<exists>l. coerce_versions (VList []) x = Inr (VList [], VList l))"
proof (cases x)
  case (Item y)
  then show ?thesis by (cases "VersionList_init [Item y]") (simp_all add: coerce_versions_def)
next
  case (VList l)
  then show ?thesis by (simp add: coerce_versions_def)
qed

lemma coerce_versions_empty_right:
  "(\<exists>e. coerce_versions x (VList []) = Inl e) \<or>
   (\<exists>l. coerce_versions x (VList []) = Inr (VList l, VList []))"
proof (cases x)
  case (Item y)
  then show ?thesis
    by (cases "VersionList_init [Item y]"; cases y) (simp_all add: coerce_versions_def)
next
  case (VList l)
  then show ?thesis by (simp add: coerce_versions_def)
qed

lemma empty_list_never_true_left:
  "obj_overlaps (VList []) x \<noteq> Inr True"
  "obj_satisfies (VList []) x strict \<noteq> Inr True"
  "obj_contains (VList []) x \<noteq> Inr True"
  using coerce_versions_empty_left [of x]
  by (auto simp: obj_overlaps_def obj_satisfies_def obj_contains_def VersionList_methods_empty)

lemma empty_list_never_true_right:
  "obj_overlaps x (VList []) \<noteq> Inr True"
  "obj_satisfies x (VList []) strict \<noteq> Inr True"
  using coerce_versions_empty_right [of x]
  by (auto simp: obj_overlaps_def obj_satisfies_def VersionList_methods_empty)

lemma empty_list_with_list:
  "obj_overlaps (VList []) (VList l) = Inr False"
  "obj_satisfies (VList []) (VList l) strict = Inr False"
  "obj_contains (VList []) (VList l) = Inr False"
  by (simp_all add: obj_overlaps_def obj_satisfies_def obj_contains_def coerce_versions_def
      VersionList_methods_empty)

text \<open>
  C10. On the empty VersionList \<^verbatim>\<open>lowest()\<close> and \<^verbatim>\<open>highest()\<close> return \<^verbatim>\<open>None\<close>. The empty
  list overlaps, satisfies (strictly or not) and contains no list, itself included, and
  no list overlaps or satisfies it; so \<^verbatim>\<open>satisfies\<close> is not reflexive at the empty list.
  Called with \<^verbatim>\<open>None\<close> the three methods answer false as well, and called through
  \<^verbatim>\<open>coerced\<close> with any Version or VersionRange (which is first made a list by
  \<^verbatim>\<open>VersionList([b])\<close>, a step that can raise) they never answer true.
\<close>

theorem empty_VersionList:
  "VersionList_lowest [] = None \<and> VersionList_highest [] = None \<and>
   VersionList_overlaps [] l = Inr False \<and> VersionList_overlaps l [] = Inr False \<and>
   VersionList_satisfies [] l strict = Inr False \<and>
   VersionList_satisfies l [] strict = Inr False \<and>
   VersionList_contains [] l = Inr False \<and>
   VersionList_satisfies [] [] strict = Inr False \<and>
   VersionList_overlaps [] [] = Inr False \<and>
   VersionList_contains [] [] = Inr False \<and>
   VersionList_overlaps_None [] = Inr False \<and>
   VersionList_satisfies_None [] strict = Inr False \<and>
   VersionList_contains_None [] = Inr False \<and>
   obj_overlaps (VList []) x \<noteq> Inr True \<and>
   obj_satisfies (VList []) x strict \<noteq> Inr True \<and>
   obj_contains (VList []) x \<noteq> Inr True \<and>
   obj_overlaps x (VList []) \<noteq> Inr True \<and>
   obj_satisfies x (VList []) strict \<noteq> Inr True \<and>
   obj_overlaps (VList []) (VList l) = Inr False \<and>
   obj_satisfies (VList []) (VList l) strict = Inr False \<and>
   obj_contains (VList []) (VList l) = Inr False"
proof -
  have ends: "VersionList_lowest [] = None" "VersionList_highest [] = None"
    by (simp_all add: VersionList_lowest_def VersionList_highest_def)
  have none: "VersionList_overlaps_None [] = Inr False"
    "VersionList_satisfies_None [] strict = Inr False"
    "VersionList_contains_None [] = Inr False"
    by (simp_all add: VersionList_overlaps_None_def VersionList_satisfies_None_def
        VersionList_contains_None_def)
  show ?thesis
    by (intro conjI ends none VersionList_methods_empty empty_list_never_true_left
        empty_list_never_true_right empty_list_with_list)
qed

section \<open>Starred versions in the parser\<close>

lemma check_for_star_components_rejects_inequality:
  "check_for_star_components
     (Some \<lparr> string = ''1.2.*'', version = [SInt 1, SInt 2], separators = [''.'', ''.*''] \<rparr>)
     (Some \<lparr> string = ''1.5'', version = [SInt 1, SInt 5], separators = [''.'', ''''] \<rparr>)
     True True = Inl StarInInequality"
  by code_simp

lemma ver_starred_range_example:
  "ver ''1.2.*:1.5'' =
     Inr (Item (R \<lparr> start = Some \<lparr> string = ''1.2.*'', version = [SInt 1, SInt 2],
                                  separators = [''.'', ''.*''] \<rparr>,
                    range_end = Some \<lparr> string = ''1.5'', version = [SInt 1, SInt 5],
                                      separators = [''.'', ''''] \<rparr>,
                    includes_left_endpoint = True, includes_right_endpoint = True \<rparr>))"
  by code_simp

lemma ver_starred_range_str: "bind_err (ver ''1.2.*:1.5'') str_of_obj = Inr ''1.2.*:1.5''"
  by code_simp

lemma ver_lone_star_example:
  "ver ''1.2.*'' =
     Inr (Item (R \<lparr> start = Some \<lparr> string = ''1.2'', version = [SInt 1, SInt 2],
                                  separators = [''.'', ''''] \<rparr>,
                    range_end = Some \<lparr> string = ''1.3'', version = [SInt 1, SInt 3],
                                      separators = [''.'', ''''] \<rparr>,
                    includes_left_endpoint = True, includes_right_endpoint = False \<rparr>))"
  by code_simp

lemma ver_lone_star_str: "bind_err (ver ''1.2.*'') str_of_obj = Inr ''1.2:!1.3''"
  by code_simp

text \<open>
  C6. \<^verbatim>\<open>ver("1.2.*")\<close> yields the half-open range printed as \<^verbatim>\<open>1.2:!1.3\<close>. But
  \<^verbatim>\<open>ver("1.2.*:1.5")\<close> raises nothing: \<^verbatim>\<open>_string_to_version\<close> builds the range with the
  plain constructor and \<^verbatim>\<open>ver\<close> calls \<^verbatim>\<open>check_for_star_components\<close> for a lone Version
  only, so the result is the range from the starred \<^verbatim>\<open>1.2.*\<close> to \<^verbatim>\<open>1.5\<close> (the check itself
  would reject these endpoints, lemma \<open>check_for_star_components_rejects_inequality\<close>).
\<close>

theorem ver_starred_endpoint_not_rejected:
  "ver ''1.2.*:1.5'' =
     Inr (Item (R \<lparr> start = Some \<lparr> string = ''1.2.*'', version = [SInt 1, SInt 2],
                                  separators = [''.'', ''.*''] \<rparr>,
                    range_end = Some \<lparr> string = ''1.5'', version = [SInt 1, SInt 5],
                                      separators = [''.'', ''''] \<rparr>,
                    includes_left_endpoint = True, includes_right_endpoint = True \<rparr>)) \<and>
   bind_err (ver ''1.2.*:1.5'') str_of_obj = Inr ''1.2.*:1.5'' \<and>
   ver ''1.2.*'' =
     Inr (Item (R \<lparr> start = Some \<lparr> string = ''1.2'', version = [SInt 1, SInt 2],
                                  separators = [''.'', ''''] \<rparr>,
                    range_end = Some \<lparr> string = ''1.3'', version = [SInt 1, SInt 3],
                                      separators = [''.'', ''''] \<rparr>,
                    includes_left_endpoint = True, includes_right_endpoint = False \<rparr>)) \<and>
   bind_err (ver ''1.2.*'') str_of_obj = Inr ''1.2:!1.3''"
  by (intro conjI ver_starred_range_example ver_starred_range_str ver_lone_star_example
      ver_lone_star_str)

section \<open>Prefix containment and the order\<close>

lemma take_eq_prefix: "take (length xs) ys = xs \<longleftrightarrow> prefix xs ys"
  by (metis append_eq_conv_conj prefix_def take_is_prefix)

lemma Version_contains_prefix: "Version_contains a b \<longleftrightarrow> prefix (version a) (version b)"
  by (simp add: Version_contains_def take_eq_prefix)


lemma Version_le_key: "Version_le a b \<longleftrightarrow> vkey a \<le> vkey b"
  by (auto simp: Version_le_def Version_lt_key Version_eq_key)

lemma Version_gt_key: "Version_gt a b \<longleftrightarrow> vkey b < vkey a"
  by (auto simp: Version_gt_def Version_lt_key Version_eq_key)

lemma prefix_vkey: "prefix (version a) (version b) \<longleftrightarrow> prefix (vkey a) (vkey b)"
proof -
  have inj: "inj seg_key" using seg_key_inj by (auto simp: inj_on_def)
  show ?thesis unfolding vkey_def
  proof
    assume "prefix (version a) (version b)"
    then show "prefix (map seg_key (version a)) (map seg_key (version b))"
      by (rule map_mono_prefix)
  next
    assume "prefix (map seg_key (version a)) (map seg_key (version b))"
    then obtain xs where xs: "prefix xs (version b)" "map seg_key (version a) = map seg_key xs"
      using prefix_map_rightE by blast
    from xs(2) inj have "version a = xs" by (simp add: inj_map_eq_map)
    with xs(1) show "prefix (version a) (version b)" by simp
  qed
qed

lemma prefix_imp_le:
  fixes xs ys :: "('a :: linorder) list"
  assumes "prefix xs ys"
  shows "xs \<le> ys"
proof -
  obtain zs where "ys = xs @ zs" using assms by (auto simp: prefix_def)
  moreover have "xs \<le> xs @ zs" by (induction xs) simp_all
  ultimately show ?thesis by simp
qed

lemma prefix_convex:
  fixes p y z :: "('a :: linorder) list"
  assumes "prefix p z" and "p \<le> y" and "y \<le> z"
  shows "prefix p y"
  using assms
proof (induction p arbitrary: y z)
  case Nil
  then show ?case by simp
next
  case (Cons a p)
  obtain z' where z: "z = a # z'" and pz: "prefix p z'"
    using Cons.prems(1) by (cases z) auto
  obtain b y' where y: "y = b # y'"
    using Cons.prems(2) by (cases y) auto
  from Cons.prems(2,3) y z have "a = b" by (auto split: if_splits)
  with Cons.prems(2,3) y z have "p \<le> y'" "y' \<le> z'" by auto
  with Cons.IH [OF pz] have "prefix p y'" by blast
  with \<open>a = b\<close> y show ?case by simp
qed

lemma version_empty_least: "version w = [] \<Longrightarrow> \<not> Version_lt u w"
  by (simp add: Version_lt_key vkey_def)



section \<open>Satisfaction between ranges\<close>

text \<open>
  The invariant of a range in the data model: when both endpoints are finite the start is
  not above the end. The constructor enforces it by its test \<^verbatim>\<open>end < start\<close>.
\<close>

definition range_ordered :: "VersionRange \<Rightarrow> bool" where
  "range_ordered r =
     (case (start r, range_end r) of
        (Some a, Some b) \<Rightarrow> \<not> Version_lt b a
      | _ \<Rightarrow> True)"





lemma ver_degenerate_examples:
  "ver ''1:1'' =
     Inr (Item (R \<lparr> start = Some \<lparr> string = ''1'', version = [SInt 1], separators = [''''] \<rparr>,
                    range_end = Some \<lparr> string = ''1'', version = [SInt 1], separators = [''''] \<rparr>,
                    includes_left_endpoint = True, includes_right_endpoint = True \<rparr>))"
  "ver ''2:-'' =
     Inr (Item (R \<lparr> start = Some \<lparr> string = ''2'', version = [SInt 2], separators = [''''] \<rparr>,
                    range_end = Some \<lparr> string = ''-'', version = [], separators = [] \<rparr>,
                    includes_left_endpoint = True, includes_right_endpoint = True \<rparr>))"
  by code_simp+


text \<open>
  Without the invariant the equivalence can fail: the parser accepts \<^verbatim>\<open>2:-\<close>, whose end
  has no segment and is therefore false as a truth value, and the range parsed from
  \<^verbatim>\<open>1:1\<close> does not satisfy it although the (empty) segments of that end are a prefix of
  the segments of \<^verbatim>\<open>1\<close>.
\<close>

lemma satisfies_without_invariant:
  "\<not> VersionRange_satisfies
     \<lparr> start = Some \<lparr> string = ''1'', version = [SInt 1], separators = [''''] \<rparr>,
       range_end = Some \<lparr> string = ''1'', version = [SInt 1], separators = [''''] \<rparr>,
       includes_left_endpoint = True, includes_right_endpoint = True \<rparr>
     \<lparr> start = Some \<lparr> string = ''2'', version = [SInt 2], separators = [''''] \<rparr>,
       range_end = Some \<lparr> string = ''-'', version = [], separators = [] \<rparr>,
       includes_left_endpoint = True, includes_right_endpoint = True \<rparr>"
  by code_simp

section \<open>Well-formed ranges\<close>

declare bisect_left_loop.simps [simp del]
declare merge_backward.simps [simp del]
declare merge_forward.simps [simp del]

text \<open>
  What the constructor and the \<^verbatim>\<open>concrete\<close> property assert of a range, with the invariant
  that the start is not above the end: an infinite endpoint is included, and when the two
  endpoints are equal they are both included or both excluded.
\<close>

definition range_wf :: "VersionRange \<Rightarrow> bool" where
  "range_wf r =
     (range_ordered r \<and>
      (start r = None \<longrightarrow> includes_left_endpoint r) \<and>
      (range_end r = None \<longrightarrow> includes_right_endpoint r) \<and>
      (opt_Version_eq (start r) (range_end r) \<longrightarrow>
         includes_left_endpoint r = includes_right_endpoint r))"

lemma start_reaches_end_key:
  "start_reaches_end (Some a) (Some b) \<longleftrightarrow> vkey a \<le> vkey b \<or> prefix (vkey b) (vkey a)"
  using prefix_imp_le [of "vkey a" "vkey b"]
  by (auto simp: start_reaches_end_def Version_le_key Version_contains_prefix prefix_vkey)

lemma range_ordered_key:
  "range_ordered r \<longleftrightarrow>
     (\<forall>a b. start r = Some a \<and> range_end r = Some b \<longrightarrow> vkey a \<le> vkey b)"
  by (auto simp: range_ordered_def Version_lt_key split: option.splits)


lemma union_start_Some:
  assumes "union_start (Some a) (Some b) = Some c"
  shows "(c = a \<or> c = b) \<and> vkey c \<le> vkey a \<and> vkey c \<le> vkey b"
  using assms prefix_imp_le [of "vkey b" "vkey a"]
  by (auto simp: union_start_def Version_contains_prefix prefix_vkey Version_lt_key
      split: if_splits)

lemma union_start_None: "union_start x y = None \<longleftrightarrow> x = None \<or> y = None"
  by (auto simp: union_start_def split: option.splits)

lemma union_end_None: "union_end x y = None \<longleftrightarrow> x = None \<or> y = None"
  by (auto simp: union_end_def split: option.splits)

lemma union_end_Some:
  "union_end (Some a) (Some b) =
     (if prefix (version a) (version b) then Some a
      else if prefix (version b) (version a) then Some b
      else if Version_lt a b then Some b else Some a)"
  by (auto simp: union_end_def Version_contains_prefix Version_gt_key Version_lt_key prefix_vkey)

lemma union_end_choice: "union_end (Some a) (Some b) = Some a \<or> union_end (Some a) (Some b) = Some b"
  by (simp add: union_end_Some)

lemma VersionRange_init_included:
  assumes "\<And>a b. s = Some a \<Longrightarrow> e = Some b \<Longrightarrow> vkey a \<le> vkey b"
  shows "VersionRange_init s e True True =
           Inr \<lparr> start = s, range_end = e,
                 includes_left_endpoint = True, includes_right_endpoint = True \<rparr>"
proof (cases s; cases e)
  fix a b assume se: "s = Some a" "e = Some b"
  then have "vkey a \<le> vkey b" using assms by simp
  then have "\<not> vkey b < vkey a" by simp
  then show ?thesis using se by (simp add: VersionRange_init_def Version_lt_key)
qed (simp_all add: VersionRange_init_def truthy_def)

lemma union_of_overlapping_ok:
  assumes "range_ordered r" and "range_ordered s"
  shows "union_of_overlapping r s =
           Inr \<lparr> start = union_start (start r) (start s),
                 range_end = union_end (range_end r) (range_end s),
                 includes_left_endpoint = True, includes_right_endpoint = True \<rparr>"
  unfolding union_of_overlapping_def
proof (rule VersionRange_init_included)
  fix c d
  assume c: "union_start (start r) (start s) = Some c"
    and d: "union_end (range_end r) (range_end s) = Some d"
  from c obtain a b where ab: "start r = Some a" "start s = Some b"
    using union_start_None [of "start r" "start s"] by (cases "start r"; cases "start s") auto
  from d obtain a' b' where ab': "range_end r = Some a'" "range_end s = Some b'"
    using union_end_None [of "range_end r" "range_end s"]
    by (cases "range_end r"; cases "range_end s") auto
  from c ab have le: "vkey c \<le> vkey a" "vkey c \<le> vkey b" using union_start_Some by auto
  from assms ab ab' have "vkey a \<le> vkey a'" "vkey b \<le> vkey b'"
    by (auto simp: range_ordered_key)
  moreover from d ab' have "d = a' \<or> d = b'" using union_end_choice [of a' b'] by auto
  ultimately show "vkey c \<le> vkey d" using le by auto
qed

lemma is_predecessor_lengths:
  "is_predecessor a b = Inr True \<Longrightarrow> length (version a) = length (version b) \<and> version a \<noteq> version b"
  by (auto simp: is_predecessor_def split: if_splits seg.splits)

section \<open>Union of two ranges\<close>

lemma normalize_concrete_range:
  assumes "range_wf r"
  shows "\<exists>x. normalize_concrete (R r) = Inr x \<and>
             opt_Version_eq (start (as_range x)) (start r) \<and>
             opt_Version_eq (range_end (as_range x)) (range_end r) \<and>
             includes_left_endpoint (as_range x) = includes_left_endpoint r \<and>
             includes_right_endpoint (as_range x) = includes_right_endpoint r"
proof -
  have refl: "opt_Version_eq a a" for a
    by (cases a) (simp_all add: opt_Version_eq_def Version_eq_def)
  have sym: "opt_Version_eq a b \<Longrightarrow> opt_Version_eq b a" for a b
    by (cases a; cases b) (simp_all add: opt_Version_eq_def Version_eq_def)
  show ?thesis
  proof (cases "VersionRange_concrete r")
    case (Inl e)
    then show ?thesis
      using assms by (auto simp: VersionRange_concrete_def range_wf_def split: if_splits)
  next
    case (Inr c)
    show ?thesis
    proof (cases c)
      case None
      then show ?thesis using Inr by (simp add: normalize_concrete_def as_range_def refl)
    next
      case (Some v)
      then have v: "start r = Some v" "opt_Version_eq (start r) (range_end r)"
        "includes_left_endpoint r" "includes_right_endpoint r"
        using Inr by (auto simp: VersionRange_concrete_def split: if_splits)
      then show ?thesis
        using Inr Some sym [OF v(2)]
        by (cases "Version_bool v") (auto simp: normalize_concrete_def as_range_def refl)
    qed
  qed
qed



lemma item_overlaps_as_range:
  "item_overlaps a b \<longleftrightarrow> VersionRange_overlaps (as_range a) (as_range b)"
proof (cases a; cases b)
  fix x y assume ab: "a = V x" "b = V y"
  have "prefix (vkey x) (vkey y) \<or> prefix (vkey y) (vkey x)"
    if "vkey x \<le> vkey y" "vkey y \<le> vkey x"
    using that by (simp add: order.antisym)
  then show ?thesis
    using ab prefix_imp_le [of "vkey x" "vkey y"] prefix_imp_le [of "vkey y" "vkey x"]
    by (auto simp: item_overlaps_def as_range_def Version_overlaps_def VersionRange_overlaps_def
        start_reaches_end_key Version_contains_prefix prefix_vkey)
qed (simp_all add: item_overlaps_def)

lemma VersionEndpoint_lt_total:
  "location a = location b \<Longrightarrow> \<exists>t. VersionEndpoint_lt a b = Inr t"
  by (auto simp: VersionEndpoint_lt_def Let_def split: option.splits)

lemma VersionRange_lt_total:
  assumes "start a = None \<longrightarrow> includes_left_endpoint a"
    and "range_end a = None \<longrightarrow> includes_right_endpoint a"
    and "start b = None \<longrightarrow> includes_left_endpoint b"
    and "range_end b = None \<longrightarrow> includes_right_endpoint b"
  shows "\<exists>t. VersionRange_lt a b = Inr t"
proof -
  obtain la lb ha hb where e: "low_endpoint a = Inr la" "low_endpoint b = Inr lb"
    "high_endpoint a = Inr ha" "high_endpoint b = Inr hb"
    and loc: "location la = Left" "location lb = Left" "location ha = Right" "location hb = Right"
    using assms by (auto simp: low_endpoint_def high_endpoint_def VersionEndpoint_init_def)
  obtain t1 where t1: "VersionEndpoint_lt la lb = Inr t1"
    using VersionEndpoint_lt_total [of la lb] loc by auto
  obtain t2 where t2: "VersionEndpoint_lt ha hb = Inr t2"
    using VersionEndpoint_lt_total [of ha hb] loc by auto
  show ?thesis using e t1 t2 by (cases t1) (auto simp: VersionRange_lt_def)
qed

lemma item_lt_total:
  assumes "start (as_range a) = None \<longrightarrow> includes_left_endpoint (as_range a)"
    and "range_end (as_range a) = None \<longrightarrow> includes_right_endpoint (as_range a)"
    and "start (as_range b) = None \<longrightarrow> includes_left_endpoint (as_range b)"
    and "range_end (as_range b) = None \<longrightarrow> includes_right_endpoint (as_range b)"
  shows "\<exists>t. item_lt a b = Inr t"
  using VersionRange_lt_total [OF assms]
  by (cases a; cases b) (auto simp: item_lt_def)




lemma bisect_left_loop_done: "hi \<le> lo \<Longrightarrow> bisect_left_loop f a lo hi = Inr lo"
  by (simp add: bisect_left_loop.simps)















section \<open>Containment between VersionLists\<close>



lemma ver_list_examples:
  "ver ''2,5'' =
     Inr (VList [V \<lparr> string = ''2'', version = [SInt 2], separators = [''''] \<rparr>,
                 V \<lparr> string = ''5'', version = [SInt 5], separators = [''''] \<rparr>])"
  "ver ''1:2,5'' =
     Inr (VList [R \<lparr> start = Some \<lparr> string = ''1'', version = [SInt 1], separators = [''''] \<rparr>,
                    range_end = Some \<lparr> string = ''2'', version = [SInt 2], separators = [''''] \<rparr>,
                    includes_left_endpoint = True, includes_right_endpoint = True \<rparr>,
                 V \<lparr> string = ''5'', version = [SInt 5], separators = [''''] \<rparr>])"
  by code_simp+







section \<open>Position of list elements\<close>

text \<open>
  The test of \<^verbatim>\<open>overlaps\<close> on key sequences: a start \<open>s\<close> reaches an end \<open>e\<close> when one
  of them is infinite, or \<open>s \<le> e\<close>, or \<open>e\<close> is a prefix of \<open>s\<close>.
\<close>

definition reach ::
  "(nat \<times> int \<times> string) list option \<Rightarrow> (nat \<times> int \<times> string) list option \<Rightarrow> bool" where
  "reach s e = (case (s, e) of (Some a, Some b) \<Rightarrow> a \<le> b \<or> prefix b a | _ \<Rightarrow> True)"

definition lo :: "item \<Rightarrow> (nat \<times> int \<times> string) list option" where
  "lo x = map_option vkey (start (as_range x))"

definition hi :: "item \<Rightarrow> (nat \<times> int \<times> string) list option" where
  "hi x = map_option vkey (range_end (as_range x))"

text \<open>
  \<open>below a b\<close>: the element \<open>a\<close> lies entirely below \<open>b\<close>, that is, the start of \<open>b\<close> does
  not reach the end of \<open>a\<close>. Two elements overlap exactly when neither is below the other.
\<close>

definition below :: "item \<Rightarrow> item \<Rightarrow> bool" where
  "below a b = (\<not> start_reaches_end (start (as_range b)) (range_end (as_range a)))"

definition item_wf :: "item \<Rightarrow> bool" where
  "item_wf x = range_wf (as_range x)"

text \<open>
  The canonical form that \<^verbatim>\<open>add\<close> maintains: well-formed elements, each entirely below
  all later ones.
\<close>

definition canonical :: "item list \<Rightarrow> bool" where
  "canonical L = (list_all item_wf L \<and> sorted_wrt below L)"

lemma start_reaches_end_reach:
  "start_reaches_end s e = reach (map_option vkey s) (map_option vkey e)"
proof (cases s; cases e)
  fix a b assume "s = Some a" "e = Some b"
  then show ?thesis by (simp add: start_reaches_end_key reach_def)
qed (simp_all add: reach_def start_reaches_end_def)

lemma below_reach: "below a b \<longleftrightarrow> \<not> reach (lo b) (hi a)"
  by (simp add: below_def start_reaches_end_reach lo_def hi_def)

lemma item_overlaps_below: "item_overlaps a b \<longleftrightarrow> \<not> below a b \<and> \<not> below b a"
  by (auto simp: item_overlaps_as_range VersionRange_overlaps_def below_def)

lemma item_wf_ordered:
  assumes "item_wf a" and "lo a = Some p" and "hi a = Some q"
  shows "p \<le> q"
  using assms by (auto simp: item_wf_def range_wf_def range_ordered_key lo_def hi_def)

lemma item_wf_Version [simp]: "item_wf (V v)"
  by (simp add: item_wf_def range_wf_def range_ordered_def as_range_def Version_lt_key)

lemma reach_None [simp]: "reach None e" "reach s None"
  by (simp_all add: reach_def split: option.splits)

lemma reach_Some: "reach (Some a) (Some b) \<longleftrightarrow> a \<le> b \<or> prefix b a"
  by (simp add: reach_def)

lemma reach_mono_start:
  assumes "a' \<le> a" and "reach (Some a) e"
  shows "reach (Some a') e"
proof (cases e)
  case None
  then show ?thesis by simp
next
  case (Some b)
  show ?thesis
  proof (cases "a' \<le> b")
    case True
    then show ?thesis using Some by (simp add: reach_Some)
  next
    case False
    then have "b \<le> a'" by simp
    moreover from False assms Some have "prefix b a" by (auto simp: reach_Some)
    ultimately have "prefix b a'" using assms(1) prefix_convex [of b a a'] by blast
    then show ?thesis using Some by (simp add: reach_Some)
  qed
qed

lemma reach_end_prefix:
  assumes "prefix q p" and "reach s (Some p)"
  shows "reach s (Some q)"
proof (cases s)
  case None
  then show ?thesis by simp
next
  case (Some x)
  show ?thesis
  proof (cases "x \<le> q")
    case True
    then show ?thesis using Some by (simp add: reach_Some)
  next
    case False
    then have qx: "q \<le> x" by simp
    from assms(2) Some have "x \<le> p \<or> prefix p x" by (simp add: reach_Some)
    then have "prefix q x"
    proof
      assume "x \<le> p"
      with assms(1) qx show ?thesis using prefix_convex [of q p x] by blast
    next
      assume "prefix p x"
      with assms(1) show ?thesis by (rule prefix_order.trans)
    qed
    then show ?thesis using Some by (simp add: reach_Some)
  qed
qed

lemma reach_end_greater:
  assumes "p < q" and "\<not> prefix p q" and "reach s (Some p)"
  shows "reach s (Some q)"
proof (cases s)
  case None
  then show ?thesis by simp
next
  case (Some x)
  from assms(3) Some have "x \<le> p \<or> prefix p x" by (simp add: reach_Some)
  then have "x \<le> q"
  proof
    assume "x \<le> p"
    with assms(1) show ?thesis by simp
  next
    assume px: "prefix p x"
    show ?thesis
    proof (rule ccontr)
      assume "\<not> x \<le> q"
      then have "q \<le> x" by simp
      with px have "prefix p q" using assms(1) prefix_convex [of p x q] by simp
      with assms(2) show False by simp
    qed
  qed
  then show ?thesis using Some by (simp add: reach_Some)
qed

lemma below_trans:
  assumes "item_wf b" and "below a b" and "below b c"
  shows "below a c"
proof -
  from assms(2) obtain s1 e1 where 1: "lo b = Some s1" "hi a = Some e1"
    "\<not> s1 \<le> e1" "\<not> prefix e1 s1"
    by (cases "lo b"; cases "hi a") (auto simp: below_reach reach_Some)
  from assms(3) obtain s2 e2 where 2: "lo c = Some s2" "hi b = Some e2"
    "\<not> s2 \<le> e2" "\<not> prefix e2 s2"
    by (cases "lo c"; cases "hi b") (auto simp: below_reach reach_Some)
  have le: "s1 \<le> e2" using item_wf_ordered [OF assms(1) 1(1) 2(2)] .
  have "\<not> s2 \<le> e1" using 1(3) 2(3) le by simp
  moreover have "\<not> prefix e1 s2"
  proof
    assume "prefix e1 s2"
    moreover have "e1 \<le> s1" using 1(3) by simp
    moreover have "s1 \<le> s2" using le 2(3) by simp
    ultimately have "prefix e1 s1" using prefix_convex [of e1 s2 s1] by blast
    with 1(4) show False by simp
  qed
  ultimately show ?thesis using 1(2) 2(1) by (simp add: below_reach reach_Some)
qed

lemma opt_Version_eq_key: "opt_Version_eq a b \<longleftrightarrow> map_option vkey a = map_option vkey b"
  by (cases a; cases b) (simp_all add: opt_Version_eq_def Version_eq_key)

lemma range_wf_key:
  "range_wf r \<longleftrightarrow>
     (\<forall>p q. map_option vkey (start r) = Some p \<and> map_option vkey (range_end r) = Some q \<longrightarrow> p \<le> q) \<and>
     (map_option vkey (start r) = None \<longrightarrow> includes_left_endpoint r) \<and>
     (map_option vkey (range_end r) = None \<longrightarrow> includes_right_endpoint r) \<and>
     (map_option vkey (start r) = map_option vkey (range_end r) \<longrightarrow>
        includes_left_endpoint r = includes_right_endpoint r)"
  by (auto simp: range_wf_def range_ordered_key opt_Version_eq_key)

lemma item_wf_key:
  "item_wf x \<longleftrightarrow>
     (\<forall>p q. lo x = Some p \<and> hi x = Some q \<longrightarrow> p \<le> q) \<and>
     (lo x = None \<longrightarrow> includes_left_endpoint (as_range x)) \<and>
     (hi x = None \<longrightarrow> includes_right_endpoint (as_range x)) \<and>
     (lo x = hi x \<longrightarrow> includes_left_endpoint (as_range x) = includes_right_endpoint (as_range x))"
  unfolding item_wf_def lo_def hi_def by (rule range_wf_key)

lemma normalize_concrete_item:
  assumes "item_wf x"
  shows "\<exists>y. normalize_concrete x = Inr y \<and> item_wf y \<and> lo y = lo x \<and> hi y = hi x"
proof (cases x)
  case (V v)
  then show ?thesis by (simp add: normalize_concrete_def)
next
  case (R r)
  then have "range_wf r" using assms by (simp add: item_wf_def as_range_def)
  from normalize_concrete_range [OF this] obtain y where y: "normalize_concrete (R r) = Inr y"
    "opt_Version_eq (start (as_range y)) (start r)"
    "opt_Version_eq (range_end (as_range y)) (range_end r)"
    "includes_left_endpoint (as_range y) = includes_left_endpoint r"
    "includes_right_endpoint (as_range y) = includes_right_endpoint r"
    by blast
  have eq: "lo y = lo x" "hi y = hi x"
    using y(2,3) R by (simp_all add: lo_def hi_def opt_Version_eq_key as_range_def)
  have "item_wf y"
    using assms y(4,5) R unfolding item_wf_key eq by (simp add: as_range_def)
  with y(1) eq R show ?thesis by blast
qed

lemma below_cong: "lo b = lo b' \<Longrightarrow> hi a = hi a' \<Longrightarrow> below a b = below a' b'"
  by (simp add: below_reach)

lemma VersionRange_lt_below:
  assumes "start a = None \<longrightarrow> includes_left_endpoint a"
    and "range_end a = None \<longrightarrow> includes_right_endpoint a"
    and "start b = None \<longrightarrow> includes_left_endpoint b"
    and "range_end b = None \<longrightarrow> includes_right_endpoint b"
    and "range_ordered a" and "range_ordered b"
    and "\<not> start_reaches_end (start b) (range_end a)"
  shows "VersionRange_lt a b = Inr True" and "VersionRange_lt b a = Inr False"
proof -
  from assms(7) have "\<not> reach (map_option vkey (start b)) (map_option vkey (range_end a))"
    by (simp add: start_reaches_end_reach)
  then obtain sb ea where se: "start b = Some sb" "range_end a = Some ea"
    "vkey ea < vkey sb"
    by (cases "start b"; cases "range_end a") (auto simp: reach_Some)
  have a: "\<And>sa. start a = Some sa \<Longrightarrow> vkey sa < vkey sb"
    using assms(5) se by (fastforce simp: range_ordered_key)
  have b: "\<And>eb. range_end b = Some eb \<Longrightarrow> vkey ea < vkey eb"
    using assms(6) se by (fastforce simp: range_ordered_key)
  show "VersionRange_lt a b = Inr True"
    using assms(1-4) se a
    by (cases "start a")
       (auto simp: VersionRange_lt_def low_endpoint_def high_endpoint_def
         VersionEndpoint_init_def VersionEndpoint_lt_def opt_Version_eq_key Version_lt_key)
  show "VersionRange_lt b a = Inr False"
    using assms(1-4) se a b
    by (cases "start a"; cases "range_end b")
       (auto simp: VersionRange_lt_def low_endpoint_def high_endpoint_def
         VersionEndpoint_init_def VersionEndpoint_lt_def opt_Version_eq_key Version_lt_key)
qed

lemma item_lt_below_both:
  assumes "item_wf a" and "item_wf b" and "below a b"
  shows "item_lt a b = Inr True \<and> item_lt b a = Inr False"
proof (cases "\<exists>x y. a = V x \<and> b = V y")
  case True
  then obtain x y where ab: "a = V x" "b = V y" by blast
  then have "\<not> reach (Some (vkey y)) (Some (vkey x))"
    using assms(3) by (simp add: below_reach lo_def hi_def as_range_def)
  then have "vkey x < vkey y" by (auto simp: reach_Some)
  then show ?thesis using ab by (simp add: item_lt_def Version_lt_key)
next
  case False
  have "VersionRange_lt (as_range a) (as_range b) = Inr True"
    "VersionRange_lt (as_range b) (as_range a) = Inr False"
    using assms
    by (auto intro!: VersionRange_lt_below simp: item_wf_def range_wf_def below_def)
  then show ?thesis using False by (cases a; cases b) (simp_all add: item_lt_def)
qed

lemma item_lt_below:
  assumes "item_wf a" and "item_wf b" and "below a b"
  shows "item_lt a b = Inr True" and "item_lt b a = Inr False"
  using item_lt_below_both [OF assms] by simp_all

lemma item_lt_wf_total:
  assumes "item_wf a" and "item_wf b"
  shows "\<exists>t. item_lt a b = Inr t"
  using assms by (intro item_lt_total) (simp_all add: item_wf_def range_wf_def)

lemma union_end_covers:
  assumes "reach s (map_option vkey e)"
  shows "reach s (map_option vkey (union_end e oe))"
proof (cases e; cases oe)
  fix a b assume eo: "e = Some a" "oe = Some b"
  show ?thesis
  proof (cases "prefix (version a) (version b)")
    case True
    then show ?thesis using assms eo by (simp add: union_end_Some)
  next
    case na: False
    show ?thesis
    proof (cases "prefix (version b) (version a)")
      case True
      then have "reach s (Some (vkey b))"
        using assms eo reach_end_prefix [of "vkey b" "vkey a" s] by (simp add: prefix_vkey)
      then show ?thesis using na True eo by (simp add: union_end_Some)
    next
      case nb: False
      show ?thesis
      proof (cases "Version_lt a b")
        case True
        then have "reach s (Some (vkey b))"
          using assms eo na reach_end_greater [of "vkey a" "vkey b" s]
          by (simp add: prefix_vkey Version_lt_key)
        then show ?thesis using na nb True eo by (simp add: union_end_Some)
      next
        case False
        then show ?thesis using assms na nb eo by (simp add: union_end_Some)
      qed
    qed
  qed
qed (simp_all add: union_end_def)

lemma union_start_keys:
  "map_option vkey (union_start s os) = map_option vkey s \<or>
   map_option vkey (union_start s os) = map_option vkey os"
  "map_option vkey (union_start s os) = Some c \<Longrightarrow>
     \<exists>p q. map_option vkey s = Some p \<and> map_option vkey os = Some q \<and> c \<le> p \<and> c \<le> q"
proof -
  show "map_option vkey (union_start s os) = map_option vkey s \<or>
      map_option vkey (union_start s os) = map_option vkey os"
    by (cases s; cases os) (auto simp: union_start_def)
  assume c: "map_option vkey (union_start s os) = Some c"
  then obtain a b where ab: "s = Some a" "os = Some b"
    by (cases s; cases os) (auto simp: union_start_def)
  from c obtain d where d: "union_start (Some a) (Some b) = Some d" "c = vkey d"
    using ab by auto
  from union_start_Some [OF d(1)] d(2) ab
  show "\<exists>p q. map_option vkey s = Some p \<and> map_option vkey os = Some q \<and> c \<le> p \<and> c \<le> q"
    by simp
qed

lemma union_end_keys:
  assumes "map_option vkey (union_end e oe) = Some q"
  shows "\<exists>a b. map_option vkey e = Some a \<and> map_option vkey oe = Some b \<and> (q = a \<or> q = b)"
proof -
  from assms obtain a b where ab: "e = Some a" "oe = Some b"
    by (cases e; cases oe) (auto simp: union_end_def)
  then show ?thesis using assms union_end_choice [of a b] by auto
qed

lemma item_union_overlapping_hull:
  assumes "item_wf v" and "item_wf y" and "item_overlaps v y"
  shows "\<exists>u. item_union_overlapping v y = Inr u \<and> item_wf u \<and>
           (lo u = lo v \<or> lo u = lo y) \<and>
           (\<forall>c. lo u = Some c \<longrightarrow> (\<exists>p. lo v = Some p \<and> c \<le> p)) \<and>
           (\<forall>s. reach s (hi v) \<longrightarrow> reach s (hi u))"
proof (cases "\<exists>a b. v = V a \<and> y = V b")
  case True
  then obtain a b where ab: "v = V a" "y = V b" by blast
  have pre: "prefix (version a) (version b) \<or> prefix (version b) (version a)"
    using assms(3) ab by (auto simp: item_overlaps_def Version_overlaps_def Version_contains_prefix)
  show ?thesis
  proof (cases "Version_eq a b \<or> Version_contains a b")
    case True
    then have "item_union_overlapping v y = Inr (V a)"
      using ab by (simp add: item_union_overlapping_def)
    then show ?thesis using ab by auto
  next
    case False
    then have u: "item_union_overlapping v y = Inr (V b)"
      using ab by (simp add: item_union_overlapping_def)
    from False pre have p: "prefix (vkey b) (vkey a)"
      by (auto simp: Version_contains_prefix prefix_vkey)
    have "lo (V b) = Some (vkey b)" "lo v = Some (vkey a)" "hi v = Some (vkey a)"
      "hi (V b) = Some (vkey b)"
      using ab by (simp_all add: lo_def hi_def as_range_def)
    then show ?thesis
      using u ab p prefix_imp_le [OF p] reach_end_prefix [OF p] by auto
  qed
next
  case False
  let ?r = "as_range v" and ?s = "as_range y"
  let ?m = "\<lparr> start = union_start (start ?r) (start ?s),
               range_end = union_end (range_end ?r) (range_end ?s),
               includes_left_endpoint = True, includes_right_endpoint = True \<rparr>"
  have ord: "range_ordered ?r" "range_ordered ?s"
    using assms(1,2) by (simp_all add: item_wf_def range_wf_def)
  have "union_of_overlapping ?r ?s = Inr ?m" by (rule union_of_overlapping_ok [OF ord])
  then have u: "item_union_overlapping v y = Inr (R ?m)"
    using False by (cases v; cases y) (simp_all add: item_union_overlapping_def)
  have lo_m: "lo (R ?m) = map_option vkey (union_start (start ?r) (start ?s))"
    and hi_m: "hi (R ?m) = map_option vkey (union_end (range_end ?r) (range_end ?s))"
    by (simp_all add: lo_def hi_def as_range_def)
  have lov: "lo v = map_option vkey (start ?r)" "lo y = map_option vkey (start ?s)"
    "hi v = map_option vkey (range_end ?r)" "hi y = map_option vkey (range_end ?s)"
    by (simp_all add: lo_def hi_def)
  have a: "lo (R ?m) = lo v \<or> lo (R ?m) = lo y"
    using union_start_keys(1) [of "start ?r" "start ?s"] by (simp add: lo_m lov)
  have b': "\<forall>c. lo (R ?m) = Some c \<longrightarrow>
      (\<exists>p q. lo v = Some p \<and> lo y = Some q \<and> c \<le> p \<and> c \<le> q)"
    using union_start_keys(2) [of "start ?r" "start ?s"] by (simp add: lo_m lov)
  then have b: "\<forall>c. lo (R ?m) = Some c \<longrightarrow> (\<exists>p. lo v = Some p \<and> c \<le> p)"
    by blast
  have c: "\<forall>s. reach s (hi v) \<longrightarrow> reach s (hi (R ?m))"
    using union_end_covers by (simp add: hi_m lov)
  have ordm: "p \<le> q" if "lo (R ?m) = Some p" "hi (R ?m) = Some q" for p q
  proof -
    from that(1) b' obtain p1 p2 where p: "lo v = Some p1" "lo y = Some p2" "p \<le> p1" "p \<le> p2"
      by blast
    from that(2) obtain e1 e2 where e: "hi v = Some e1" "hi y = Some e2" "q = e1 \<or> q = e2"
      using union_end_keys [of "range_end ?r" "range_end ?s" q] by (auto simp: hi_m lov)
    have "p1 \<le> e1" using item_wf_ordered [OF assms(1) p(1) e(1)] .
    moreover have "p2 \<le> e2" using item_wf_ordered [OF assms(2) p(2) e(2)] .
    ultimately show ?thesis using p(3,4) e(3) by auto
  qed
  have "item_wf (R ?m)"
    unfolding item_wf_key using ordm by (auto simp: as_range_def)
  with u a b c show ?thesis by blast
qed

section \<open>VersionList.add keeps the list canonical\<close>

lemma bisect_left_loop_spec:
  assumes "\<forall>y\<in>set a. \<exists>b. f y = Inr b"
    and "lo' \<le> hi'" and "hi' \<le> length a"
    and "0 < lo' \<longrightarrow> f (a ! (lo' - 1)) = Inr True"
    and "hi' < length a \<longrightarrow> f (a ! hi') = Inr False"
  shows "\<exists>i. bisect_left_loop f a lo' hi' = Inr i \<and> i \<le> length a \<and>
           (0 < i \<longrightarrow> f (a ! (i - 1)) = Inr True) \<and>
           (i < length a \<longrightarrow> f (a ! i) = Inr False)"
  using assms
proof (induction f a lo' hi' rule: bisect_left_loop.induct)
  case (1 f a l h)
  show ?case
  proof (cases "l < h")
    case False
    with "1.prems" have "l = h" by simp
    with "1.prems" show ?thesis by (simp add: bisect_left_loop_done)
  next
    case True
    let ?mid = "(l + h) div 2"
    have mid: "l \<le> ?mid" "?mid < h" "?mid < length a" using True "1.prems"(3) by auto
    then obtain b where b: "f (a ! ?mid) = Inr b"
      using "1.prems"(1) nth_mem [of ?mid a] by blast
    show ?thesis
    proof (cases b)
      case True
      have "\<exists>i. bisect_left_loop f a (?mid + 1) h = Inr i \<and> i \<le> length a \<and>
           (0 < i \<longrightarrow> f (a ! (i - 1)) = Inr True) \<and>
           (i < length a \<longrightarrow> f (a ! i) = Inr False)"
        using "1.IH"(1) [OF \<open>l < h\<close> b True] "1.prems" mid b True by simp
      then show ?thesis
        using \<open>l < h\<close> b True by (subst bisect_left_loop.simps) simp
    next
      case False
      have "\<exists>i. bisect_left_loop f a l ?mid = Inr i \<and> i \<le> length a \<and>
           (0 < i \<longrightarrow> f (a ! (i - 1)) = Inr True) \<and>
           (i < length a \<longrightarrow> f (a ! i) = Inr False)"
        using "1.IH"(2) [OF \<open>l < h\<close> b False] "1.prems" mid b False by simp
      then show ?thesis
        using \<open>l < h\<close> b False by (subst bisect_left_loop.simps) simp
    qed
  qed
qed

lemma bisect_left_spec:
  assumes "\<forall>y\<in>set a. \<exists>b. f y = Inr b"
  shows "\<exists>i. bisect_left f a = Inr i \<and> i \<le> length a \<and>
           (0 < i \<longrightarrow> f (a ! (i - 1)) = Inr True) \<and>
           (i < length a \<longrightarrow> f (a ! i) = Inr False)"
  unfolding bisect_left_def using assms by (intro bisect_left_loop_spec) simp_all

lemma canonical_nth_below:
  "canonical L \<Longrightarrow> i < j \<Longrightarrow> j < length L \<Longrightarrow> below (L ! i) (L ! j)"
  by (simp add: canonical_def sorted_wrt_nth_less)

lemma canonical_nth_wf: "canonical L \<Longrightarrow> i < length L \<Longrightarrow> item_wf (L ! i)"
  by (simp add: canonical_def list_all_length)

lemma canonical_delete_at: "canonical L \<Longrightarrow> canonical (delete_at i L)"
proof -
  assume c: "canonical L"
  have "sorted_wrt below (take i L @ drop i L)" using c by (simp add: canonical_def)
  then have "sorted_wrt below (take i L @ drop (Suc i) L)"
    unfolding sorted_wrt_append
    using sorted_wrt_drop [of below "drop i L" 1] set_drop_subset_set_drop [of i "Suc i" L]
    by (auto simp: drop_Suc [symmetric] simp del: set_drop_subset_set_drop)
  moreover have "list_all item_wf (take i L @ drop (Suc i) L)"
    using c by (auto simp: canonical_def list_all_iff dest: in_set_takeD in_set_dropD)
  ultimately show ?thesis by (simp add: canonical_def delete_at_def)
qed

text \<open>
  Where \<^verbatim>\<open>bisect_left\<close> lands: no element before the index is above the new version,
  and no element from the index on is below it.
\<close>

lemma bisect_position:
  assumes "canonical L" and "item_wf v"
  shows "\<exists>i. bisect_left (\<lambda>y. item_lt y v) L = Inr i \<and> i \<le> length L \<and>
           (\<forall>z\<in>set (take i L). \<not> below v z) \<and>
           (\<forall>z\<in>set (drop i L). \<not> below z v)"
proof -
  have "\<forall>y\<in>set L. \<exists>b. item_lt y v = Inr b"
    using assms item_lt_wf_total by (auto simp: canonical_def list_all_iff)
  from bisect_left_spec [OF this] obtain i where i:
    "bisect_left (\<lambda>y. item_lt y v) L = Inr i" "i \<le> length L"
    "0 < i \<longrightarrow> item_lt (L ! (i - 1)) v = Inr True"
    "i < length L \<longrightarrow> item_lt (L ! i) v = Inr False"
    by blast
  have before: "\<not> below v (L ! k)" if "k < i" for k
  proof
    assume bk: "below v (L ! k)"
    have ki: "k \<le> i - 1" "i - 1 < length L" using that i(2) by auto
    have "below v (L ! (i - 1))"
    proof (cases "k = i - 1")
      case True
      with bk show ?thesis by simp
    next
      case False
      then have "below (L ! k) (L ! (i - 1))"
        using canonical_nth_below [OF assms(1), of k "i - 1"] ki by simp
      with bk show ?thesis
        using below_trans [of "L ! k" v "L ! (i - 1)"] canonical_nth_wf [OF assms(1), of k] ki
        by simp
    qed
    then have "item_lt (L ! (i - 1)) v = Inr False"
      using item_lt_below(2) [OF assms(2) canonical_nth_wf [OF assms(1) ki(2)]] by simp
    with i(3) that show False by simp
  qed
  have after: "\<not> below (L ! k) v" if "i \<le> k" "k < length L" for k
  proof
    assume bk: "below (L ! k) v"
    have "below (L ! i) v"
    proof (cases "k = i")
      case True
      with bk show ?thesis by simp
    next
      case False
      then have "below (L ! i) (L ! k)"
        using canonical_nth_below [OF assms(1), of i k] that by simp
      with bk show ?thesis
        using below_trans [of "L ! k" "L ! i" v] canonical_nth_wf [OF assms(1) that(2)] by simp
    qed
    then have "item_lt (L ! i) v = Inr True"
      using item_lt_below(1) [OF canonical_nth_wf [OF assms(1)] assms(2)] that by simp
    with i(4) that show False by simp
  qed
  have "\<forall>z\<in>set (take i L). \<not> below v z"
    using before i(2) by (auto simp: in_set_conv_nth)
  moreover have "\<forall>z\<in>set (drop i L). \<not> below z v"
    using after by (auto simp: in_set_conv_nth)
  ultimately show ?thesis using i(1,2) by blast
qed

lemma take_delete_at: "k \<le> i \<Longrightarrow> i \<le> length xs \<Longrightarrow> take k (delete_at i xs) = take k xs"
  by (simp add: delete_at_def min_def)

lemma drop_delete_at:
  "i \<le> m \<Longrightarrow> i < length xs \<Longrightarrow> drop m (delete_at i xs) = drop (Suc m) xs"
  by (simp add: delete_at_def)

lemma length_delete_at: "i < length xs \<Longrightarrow> length (delete_at i xs) = length xs - 1"
  by (simp add: delete_at_def)

text \<open>
  What the merged version inherits from \<^verbatim>\<open>version.union(self[i])\<close> when the two overlap:
  it is not below what the old version was not below, not above what the old version was
  not above, and it is above what both were above.
\<close>

lemma union_keeps_position:
  assumes "item_wf v" and "item_wf y" and "item_overlaps v y"
  shows "\<exists>u. item_union_overlapping v y = Inr u \<and> item_wf u \<and>
           (\<forall>z. \<not> below v z \<longrightarrow> \<not> below u z) \<and>
           (\<forall>z. \<not> below z v \<longrightarrow> \<not> below z u) \<and>
           (\<forall>z. below z v \<longrightarrow> below z y \<longrightarrow> below z u)"
proof -
  from item_union_overlapping_hull [OF assms] obtain u where u:
    "item_union_overlapping v y = Inr u" "item_wf u" "lo u = lo v \<or> lo u = lo y"
    "\<forall>c. lo u = Some c \<longrightarrow> (\<exists>p. lo v = Some p \<and> c \<le> p)"
    "\<forall>s. reach s (hi v) \<longrightarrow> reach s (hi u)"
    by blast
  have 1: "\<not> below u z" if "\<not> below v z" for z
    using that u(5) by (simp add: below_reach)
  have 2: "\<not> below z u" if "\<not> below z v" for z
  proof (cases "lo u")
    case None
    then show ?thesis by (simp add: below_reach)
  next
    case (Some c)
    with u(4) obtain p where "lo v = Some p" "c \<le> p" by blast
    with that Some show ?thesis
      using reach_mono_start [of c p "hi z"] by (simp add: below_reach)
  qed
  have 3: "below z u" if "below z v" "below z y" for z
    using that u(3) by (auto simp: below_reach)
  from u(1,2) 1 2 3 show ?thesis by blast
qed

lemma merge_backward_spec:
  assumes "canonical xs" and "i \<le> length xs" and "item_wf v"
    and "\<forall>z\<in>set (take i xs). \<not> below v z"
    and "\<forall>z\<in>set (drop i xs). \<not> below z v"
  shows "\<exists>k v'. merge_backward xs i v = Inr (take k xs @ drop i xs, k, v') \<and> k \<le> i \<and>
           item_wf v' \<and> (\<forall>z\<in>set (take k xs). below z v') \<and>
           (\<forall>z\<in>set (drop i xs). \<not> below z v')"
  using assms
proof (induction i arbitrary: xs v)
  case 0
  have "merge_backward xs 0 v = Inr (take 0 xs @ drop 0 xs, 0, v)"
    by (subst merge_backward.simps) simp
  moreover have "\<forall>z\<in>set (take 0 xs). below z v" by simp
  ultimately show ?case using "0.prems"(3,5) by blast
next
  case (Suc i)
  let ?y = "xs ! i"
  have ilen: "i < length xs" using Suc.prems(2) by simp
  have wfy: "item_wf ?y" using canonical_nth_wf [OF Suc.prems(1) ilen] .
  have ytake: "?y \<in> set (take (Suc i) xs)" using ilen by (simp add: take_Suc_conv_app_nth)
  show ?case
  proof (cases "item_overlaps v ?y")
    case False
    have "\<not> below v ?y" using Suc.prems(4) ytake by blast
    with False have yv: "below ?y v" by (simp add: item_overlaps_below)
    have "below z v" if "z \<in> set (take (Suc i) xs)" for z
    proof -
      from that obtain k where k: "k < Suc i" "z = xs ! k"
        using ilen by (auto simp: in_set_conv_nth)
      show ?thesis
      proof (cases "k = i")
        case True
        with k yv show ?thesis by simp
      next
        case False
        then have "below z ?y" using canonical_nth_below [OF Suc.prems(1), of k i] k ilen by simp
        then show ?thesis using below_trans [OF wfy _ yv] by simp
      qed
    qed
    then have "\<forall>z\<in>set (take (Suc i) xs). below z v" by blast
    moreover have "merge_backward xs (Suc i) v = Inr (take (Suc i) xs @ drop (Suc i) xs, Suc i, v)"
      using False by (subst merge_backward.simps) simp
    ultimately show ?thesis using Suc.prems(3,5) by blast
  next
    case True
    from union_keeps_position [OF Suc.prems(3) wfy True] obtain u where u:
      "item_union_overlapping v ?y = Inr u" "item_wf u"
      "\<forall>z. \<not> below v z \<longrightarrow> \<not> below u z"
      "\<forall>z. \<not> below z v \<longrightarrow> \<not> below z u"
      by blast
    let ?xs' = "delete_at i xs"
    have c': "canonical ?xs'" using Suc.prems(1) by (rule canonical_delete_at)
    have len': "i \<le> length ?xs'" using ilen by (simp add: length_delete_at)
    have tk: "take i ?xs' = take i xs" using ilen by (simp add: take_delete_at)
    have dr: "drop i ?xs' = drop (Suc i) xs" using ilen by (simp add: drop_delete_at)
    have b1: "\<forall>z\<in>set (take i ?xs'). \<not> below u z"
      using Suc.prems(4) u(3) unfolding tk by (auto dest: in_set_takeD simp: take_Suc_conv_app_nth ilen)
    have b2: "\<forall>z\<in>set (drop i ?xs'). \<not> below z u"
      using Suc.prems(5) u(4) unfolding dr by blast
    from Suc.IH [OF c' len' u(2) b1 b2] obtain k v' where kv:
      "merge_backward ?xs' i u = Inr (take k ?xs' @ drop i ?xs', k, v')" "k \<le> i"
      "item_wf v'" "\<forall>z\<in>set (take k ?xs'). below z v'" "\<forall>z\<in>set (drop i ?xs'). \<not> below z v'"
      by blast
    have tk': "take k ?xs' = take k xs" using kv(2) ilen by (simp add: take_delete_at)
    have "merge_backward xs (Suc i) v = Inr (take k xs @ drop (Suc i) xs, k, v')"
      using True u(1) kv(1) unfolding tk' dr by (subst merge_backward.simps) simp
    moreover have "k \<le> Suc i" using kv(2) by simp
    moreover have "\<forall>z\<in>set (take k xs). below z v'" using kv(4) unfolding tk' .
    moreover have "\<forall>z\<in>set (drop (Suc i) xs). \<not> below z v'" using kv(5) unfolding dr .
    ultimately show ?thesis using kv(3) by blast
  qed
qed

lemma merge_forward_spec:
  assumes "canonical xs" and "i \<le> length xs" and "item_wf v"
    and "\<forall>z\<in>set (take i xs). below z v"
    and "\<forall>z\<in>set (drop i xs). \<not> below z v"
  shows "\<exists>m v'. merge_forward xs i v = Inr (take i xs @ drop m xs, v') \<and> i \<le> m \<and>
           m \<le> length xs \<and> item_wf v' \<and> (\<forall>z\<in>set (take i xs). below z v') \<and>
           (\<forall>z\<in>set (drop m xs). below v' z)"
  using assms
proof (induction "length xs - i" arbitrary: xs v)
  case 0
  then have i: "i = length xs" by simp
  have "merge_forward xs i v = Inr (take i xs @ drop i xs, v)"
    using i by (subst merge_forward.simps) simp
  moreover have "\<forall>z\<in>set (drop i xs). below v z" using i by simp
  ultimately show ?case using "0.prems"(2,3,4) by blast
next
  case (Suc n)
  then have ilen: "i < length xs" by simp
  let ?y = "xs ! i"
  have wfy: "item_wf ?y" using canonical_nth_wf [OF Suc.prems(1) ilen] .
  have ydrop: "?y \<in> set (drop i xs)" using ilen by (simp add: Cons_nth_drop_Suc [symmetric])
  show ?case
  proof (cases "item_overlaps v ?y")
    case False
    have "\<not> below ?y v" using Suc.prems(5) ydrop by blast
    with False have vy: "below v ?y" by (simp add: item_overlaps_below)
    have "below v z" if "z \<in> set (drop i xs)" for z
    proof -
      from that obtain j where j: "j < length xs - i" "z = drop i xs ! j"
        by (auto simp: in_set_conv_nth)
      define k where "k = i + j"
      have k: "i \<le> k" "k < length xs" "z = xs ! k"
        using j ilen by (simp_all add: k_def)
      show ?thesis
      proof (cases "k = i")
        case True
        with k vy show ?thesis by simp
      next
        case False
        then have "below ?y z" using canonical_nth_below [OF Suc.prems(1), of i k] k by simp
        then show ?thesis using below_trans [OF wfy vy] by simp
      qed
    qed
    then have "\<forall>z\<in>set (drop i xs). below v z" by blast
    moreover have "merge_forward xs i v = Inr (take i xs @ drop i xs, v)"
      using False by (subst merge_forward.simps) simp
    ultimately show ?thesis using Suc.prems(2,3,4) by blast
  next
    case True
    from union_keeps_position [OF Suc.prems(3) wfy True] obtain u where u:
      "item_union_overlapping v ?y = Inr u" "item_wf u"
      "\<forall>z. \<not> below z v \<longrightarrow> \<not> below z u"
      "\<forall>z. below z v \<longrightarrow> below z ?y \<longrightarrow> below z u"
      by blast
    let ?xs' = "delete_at i xs"
    have c': "canonical ?xs'" using Suc.prems(1) by (rule canonical_delete_at)
    have len': "i \<le> length ?xs'" "n = length ?xs' - i"
      using ilen Suc.hyps(2) by (simp_all add: length_delete_at)
    have tk: "take i ?xs' = take i xs" using ilen by (simp add: take_delete_at)
    have dr: "drop i ?xs' = drop (Suc i) xs" using ilen by (simp add: drop_delete_at)
    have "below z ?y" if "z \<in> set (take i xs)" for z
    proof -
      from that obtain k where "k < i" "z = xs ! k" using ilen by (auto simp: in_set_conv_nth)
      then show ?thesis using canonical_nth_below [OF Suc.prems(1), of k i] ilen by simp
    qed
    then have b1: "\<forall>z\<in>set (take i ?xs'). below z u"
      using Suc.prems(4) u(4) unfolding tk by blast
    have b2: "\<forall>z\<in>set (drop i ?xs'). \<not> below z u"
      using Suc.prems(5) u(3) set_drop_subset_set_drop [of i "Suc i" xs] unfolding dr by auto
    from Suc.hyps(1) [OF len'(2) c' len'(1) u(2) b1 b2] obtain m v' where mv:
      "merge_forward ?xs' i u = Inr (take i ?xs' @ drop m ?xs', v')" "i \<le> m"
      "m \<le> length ?xs'" "item_wf v'" "\<forall>z\<in>set (take i ?xs'). below z v'"
      "\<forall>z\<in>set (drop m ?xs'). below v' z"
      by blast
    have dm: "drop m ?xs' = drop (Suc m) xs" using mv(2) ilen by (simp add: drop_delete_at)
    have "merge_forward xs i v = Inr (take i xs @ drop (Suc m) xs, v')"
      using True ilen u(1) mv(1) unfolding tk dm by (subst merge_forward.simps) simp
    moreover have "Suc m \<le> length xs" using mv(3) ilen by (simp add: length_delete_at)
    moreover have "i \<le> Suc m" using mv(2) by simp
    moreover have "\<forall>z\<in>set (take i xs). below z v'" using mv(5) unfolding tk .
    moreover have "\<forall>z\<in>set (drop (Suc m) xs). below v' z" using mv(6) unfolding dm .
    ultimately show ?thesis using mv(4) by blast
  qed
qed

end
